theory Spec2Isabelle
  imports Main "HOL-Library.AList"
begin

section \<open>Errors\<close>

text \<open>
  Every \<^verbatim>\<open>throw\<close> of the modelled code is a value of this type. The attribute selector
  throws plain \<^verbatim>\<open>Error\<close>s that differ in their message only, and \<^verbatim>\<open>ow\<close> throws an
  argument error; the client passes on whatever its collaborators throw.
\<close>

datatype error =
    InvalidSelector          \<comment> \<open>\<^verbatim>\<open>Expected a valid attribute selector, but received ...\<close>\<close>
  | ArgumentError            \<comment> \<open>\<^verbatim>\<open>ow(name, 'name', ow.string.nonEmpty)\<close> failed\<close>
  | CannotRemoveFromTrue     \<comment> \<open>\<^verbatim>\<open>Cannot remove an 'object' attribute selector from a 'true' ...\<close>\<close>
  | TypeError                \<comment> \<open>reading a property of \<^verbatim>\<open>undefined\<close>\<close>
  | VersionMismatch
  | UnknownComponent string
  | FunctionDeserializationDisabled
  | TransportError string
  | RemoteError string       \<comment> \<open>an error tunnelled through the \<^verbatim>\<open>__error\<close> sentinel\<close>
  | MissingAttribute string  \<comment> \<open>\<^verbatim>\<open>getAttribute\<close> of a name the component does not have\<close>
  | NotAComponent            \<comment> \<open>\<^verbatim>\<open>ensureComponentClass\<close> of a value that is no component\<close>

section \<open>AttributeSelector\<close>

subsection \<open>Values\<close>

text \<open>
  The values the attribute selector functions receive: \<^verbatim>\<open>undefined\<close>, a boolean, a plain
  object whose prototype is \<^verbatim>\<open>Object.prototype\<close> (an object literal, the result of a spread
  or of \<^verbatim>\<open>omit\<close>; its own enumerable string keys in insertion order, each key once), the
  object \<^verbatim>\<open>Object.prototype\<close> itself, which a property read can return, or anything else
  (\<^verbatim>\<open>null\<close>, a number, a string, a function, an array, ...), which \<^verbatim>\<open>normalize\<close> rejects.
\<close>

datatype jsvalue =
    Undefined
  | Boolean bool
  | PlainObject "(string \<times> jsvalue) list"
  | ObjectPrototype
  | NonSelector

text \<open>
  \<^verbatim>\<open>normalize(attributeSelector)\<close>. lodash's \<^verbatim>\<open>isPlainObject\<close> accepts \<^verbatim>\<open>Object.prototype\<close>, whose
  own prototype is \<^verbatim>\<open>null\<close>.
\<close>

fun normalize_selector :: "jsvalue \<Rightarrow> error + jsvalue" where
  "normalize_selector Undefined = Inr (Boolean False)"
| "normalize_selector (Boolean b) = Inr (Boolean b)"
| "normalize_selector (PlainObject entries) = Inr (PlainObject entries)"
| "normalize_selector ObjectPrototype = Inr ObjectPrototype"
| "normalize_selector NonSelector = Inl InvalidSelector"

text \<open>
  The properties every object inherits from \<^verbatim>\<open>Object.prototype\<close>: eleven methods and the
  accessor \<^verbatim>\<open>__proto__\<close>. None of them is enumerable.
\<close>

definition Object_prototype_methods :: "string list" where
  "Object_prototype_methods =
     [''constructor'', ''hasOwnProperty'', ''isPrototypeOf'', ''propertyIsEnumerable'',
      ''toLocaleString'', ''toString'', ''valueOf'', ''__defineGetter__'', ''__defineSetter__'',
      ''__lookupGetter__'', ''__lookupSetter__'']"

text \<open>
  \<^verbatim>\<open>attributeSelector[name]\<close>. The read finds an own key first and then walks the prototype
  chain: on a plain object an inherited method is a function, \<^verbatim>\<open>__proto__\<close> is
  \<^verbatim>\<open>Object.prototype\<close>, and any other absent name is \<^verbatim>\<open>undefined\<close>. On \<^verbatim>\<open>Object.prototype\<close>
  itself \<^verbatim>\<open>__proto__\<close> is \<^verbatim>\<open>null\<close>. The functions below read properties of normalized
  selectors that are no booleans, that is of these two kinds of object only.
\<close>

fun property :: "jsvalue \<Rightarrow> string \<Rightarrow> jsvalue" where
  "property (PlainObject entries) name =
     (case map_of entries name of
        Some v \<Rightarrow> v
      | None \<Rightarrow>
          if name = ''__proto__'' then ObjectPrototype
          else if name \<in> set Object_prototype_methods then NonSelector
          else Undefined)"
| "property ObjectPrototype name =
     (if name = ''__proto__'' \<or> name \<in> set Object_prototype_methods then NonSelector
      else Undefined)"
| "property _ name = Undefined"

text \<open>\<^verbatim>\<open>name in object\<close>: an own or an inherited property.\<close>

fun in_object :: "string \<Rightarrow> jsvalue \<Rightarrow> bool" where
  "in_object name (PlainObject entries) =
     (name \<in> set (map fst entries) \<or> name = ''__proto__'' \<or> name \<in> set Object_prototype_methods)"
| "in_object name ObjectPrototype =
     (name = ''__proto__'' \<or> name \<in> set Object_prototype_methods)"
| "in_object name _ = False"

text \<open>
  \<^verbatim>\<open>Object.entries(value)\<close>; a boolean has no entries, and \<^verbatim>\<open>Object.prototype\<close> has no
  enumerable one.
\<close>

fun Object_entries :: "jsvalue \<Rightarrow> (string \<times> jsvalue) list" where
  "Object_entries (PlainObject entries) = entries"
| "Object_entries _ = []"

text \<open>
  \<^verbatim>\<open>a === b\<close>. Two booleans are strictly equal when they are the same boolean. Two plain
  objects are strictly equal only when they are one and the same object; values carry no
  identity here, so the comparison of two mappings is modelled as \<open>False\<close> and the code
  goes on to compare them entry by entry (lemma \<open>includes_selector_same\<close> below shows
  that, on a selector compared with itself, this walk answers \<open>True\<close> as the shortcut does).
  There is one \<^verbatim>\<open>Object.prototype\<close>.
\<close>

fun strict_equal :: "jsvalue \<Rightarrow> jsvalue \<Rightarrow> bool" where
  "strict_equal (Boolean x) (Boolean y) = (x = y)"
| "strict_equal ObjectPrototype ObjectPrototype = True"
| "strict_equal _ _ = False"

text \<open>\<^verbatim>\<open>typeof value === 'boolean'\<close>\<close>

fun is_boolean :: "jsvalue \<Rightarrow> bool" where
  "is_boolean (Boolean b) = True"
| "is_boolean _ = False"

subsection \<open>\<^verbatim>\<open>set\<close>\<close>

text \<open>
  lodash's \<^verbatim>\<open>omit(object, name)\<close> copies the enumerable properties of the object into a new
  plain object and deletes one property from the copy. It takes \<^verbatim>\<open>name\<close> for the key to
  delete when \<^verbatim>\<open>isKey(name, object)\<close> holds: the name has no \<^verbatim>\<open>.\<close> and no bracket group
  \<^verbatim>\<open>[...]\<close>, or \<^verbatim>\<open>name in object\<close>. Any other name it reads as a path (\<^verbatim>\<open>a.b\<close>, \<^verbatim>\<open>a[0]\<close>)
  and deletes the nested property the path leads to, in a deep clone. lodash is not part of
  the sources, so the path case is the parameter \<open>omitPath\<close>, which stands for whatever
  lodash returns there; a name with neither \<^verbatim>\<open>.\<close> nor \<^verbatim>\<open>[\<close> is never a path.
\<close>

definition plain_key :: "string \<Rightarrow> bool" where
  "plain_key name \<longleftrightarrow> CHR ''.'' \<notin> set name \<and> CHR ''['' \<notin> set name"

type_synonym omit_path = "jsvalue \<Rightarrow> string \<Rightarrow> jsvalue"

definition omit :: "omit_path \<Rightarrow> jsvalue \<Rightarrow> string \<Rightarrow> jsvalue" where
  "omit omitPath object name =
     (if plain_key name \<or> in_object name object
      then PlainObject (AList.delete name (Object_entries object))
      else omitPath object name)"

text \<open>
  For the examples, none of which holds a path: an \<^verbatim>\<open>omit\<close> that finds nothing to delete at
  a path and returns the copy as it is.
\<close>

definition omit_nothing :: omit_path where
  "omit_nothing object name = PlainObject (Object_entries object)"

text \<open>
  The spread \<^verbatim>\<open>{...attributeSelector, [name]: sub}\<close> is \<^const>\<open>AList.update\<close>: an existing key
  keeps its place, a new key goes last; a computed key makes an own property whatever the
  name.
\<close>

definition set_selector :: "omit_path \<Rightarrow> jsvalue \<Rightarrow> string \<Rightarrow> jsvalue \<Rightarrow> error + jsvalue" where
  "set_selector omitPath attributeSelector name subattributeSelector =
     (if name = [] then Inl ArgumentError
      else case normalize_selector attributeSelector of
        Inl e \<Rightarrow> Inl e
      | Inr attributeSelector' \<Rightarrow>
          if is_boolean attributeSelector' then Inr attributeSelector'
          else (case normalize_selector subattributeSelector of
            Inl e \<Rightarrow> Inl e
          | Inr subattributeSelector' \<Rightarrow>
              if subattributeSelector' = Boolean False
              then Inr (omit omitPath attributeSelector' name)
              else Inr (PlainObject
                     (AList.update name subattributeSelector' (Object_entries attributeSelector')))))"

subsection \<open>\<^verbatim>\<open>includes\<close>, \<^verbatim>\<open>add\<close>, \<^verbatim>\<open>remove\<close>\<close>

lemma normalize_selector_entries_size:
  "normalize_selector b = Inr b' \<Longrightarrow>
     size_list (size_prod (\<lambda>_. 0) size) (Object_entries b') < size b + 1"
  by (cases b) auto

text \<open>
  Each function normalizes both arguments, settles the boolean cases and then walks the
  entries of the second argument; the \<^verbatim>\<open>for ... of Object.entries(...)\<close> loops are the
  \<open>_entries\<close> functions, which carry the selector being rebuilt.
\<close>

function includes_selector :: "jsvalue \<Rightarrow> jsvalue \<Rightarrow> error + bool"
  and includes_entries :: "jsvalue \<Rightarrow> (string \<times> jsvalue) list \<Rightarrow> error + bool"
where
  "includes_selector a b =
     (case normalize_selector a of Inl e \<Rightarrow> Inl e | Inr attributeSelector \<Rightarrow>
      (case normalize_selector b of Inl e \<Rightarrow> Inl e | Inr otherAttributeSelector \<Rightarrow>
        if strict_equal attributeSelector otherAttributeSelector then Inr True
        else (case attributeSelector of
           Boolean x \<Rightarrow> Inr x
         | _ \<Rightarrow>
           (case otherAttributeSelector of
              Boolean y \<Rightarrow> Inr (\<not> y)
            | _ \<Rightarrow> includes_entries attributeSelector (Object_entries otherAttributeSelector)))))"
| "includes_entries attributeSelector [] = Inr True"
| "includes_entries attributeSelector ((name, otherSubattributeSelector) # rest) =
     (case includes_selector (property attributeSelector name) otherSubattributeSelector of
        Inl e \<Rightarrow> Inl e
      | Inr ok \<Rightarrow> if \<not> ok then Inr False else includes_entries attributeSelector rest)"
  by pat_completeness auto
termination
  by (relation "measure (\<lambda>x. case x of
          Inl (a, b) \<Rightarrow> 2 * size b + 2
        | Inr (a, es) \<Rightarrow> 2 * size_list (size_prod (\<lambda>_. 0) size) es)")
     (auto dest!: normalize_selector_entries_size)

function add_selector :: "omit_path \<Rightarrow> jsvalue \<Rightarrow> jsvalue \<Rightarrow> error + jsvalue"
  and add_entries :: "omit_path \<Rightarrow> jsvalue \<Rightarrow> (string \<times> jsvalue) list \<Rightarrow> error + jsvalue"
where
  "add_selector omitPath a b =
     (case normalize_selector a of Inl e \<Rightarrow> Inl e | Inr attributeSelector \<Rightarrow>
      (case normalize_selector b of Inl e \<Rightarrow> Inl e | Inr otherAttributeSelector \<Rightarrow>
        if attributeSelector = Boolean True then Inr (Boolean True)
        else if attributeSelector = Boolean False then Inr otherAttributeSelector
        else if otherAttributeSelector = Boolean True then Inr (Boolean True)
        else if otherAttributeSelector = Boolean False then Inr attributeSelector
        else add_entries omitPath attributeSelector (Object_entries otherAttributeSelector)))"
| "add_entries omitPath attributeSelector [] = Inr attributeSelector"
| "add_entries omitPath attributeSelector ((name, otherSubattributeSelector) # rest) =
     (case add_selector omitPath (property attributeSelector name) otherSubattributeSelector of
        Inl e \<Rightarrow> Inl e
      | Inr added \<Rightarrow>
          (case set_selector omitPath attributeSelector name added of
             Inl e \<Rightarrow> Inl e
           | Inr attributeSelector' \<Rightarrow> add_entries omitPath attributeSelector' rest))"
  by pat_completeness auto
termination
  by (relation "measure (\<lambda>x. case x of
          Inl (p, a, b) \<Rightarrow> 2 * size b + 2
        | Inr (p, a, es) \<Rightarrow> 2 * size_list (size_prod (\<lambda>_. 0) size) es)")
     (auto dest!: normalize_selector_entries_size)

function remove_selector :: "omit_path \<Rightarrow> jsvalue \<Rightarrow> jsvalue \<Rightarrow> error + jsvalue"
  and remove_entries :: "omit_path \<Rightarrow> jsvalue \<Rightarrow> (string \<times> jsvalue) list \<Rightarrow> error + jsvalue"
where
  "remove_selector omitPath a b =
     (case normalize_selector a of Inl e \<Rightarrow> Inl e | Inr attributeSelector \<Rightarrow>
      (case normalize_selector b of Inl e \<Rightarrow> Inl e | Inr otherAttributeSelector \<Rightarrow>
        if otherAttributeSelector = Boolean True then Inr (Boolean False)
        else if otherAttributeSelector = Boolean False then Inr attributeSelector
        else if attributeSelector = Boolean True then Inl CannotRemoveFromTrue
        else if attributeSelector = Boolean False then Inr (Boolean False)
        else remove_entries omitPath attributeSelector (Object_entries otherAttributeSelector)))"
| "remove_entries omitPath attributeSelector [] = Inr attributeSelector"
| "remove_entries omitPath attributeSelector ((name, otherSubattributeSelector) # rest) =
     (case remove_selector omitPath (property attributeSelector name) otherSubattributeSelector of
        Inl e \<Rightarrow> Inl e
      | Inr removed \<Rightarrow>
          (case set_selector omitPath attributeSelector name removed of
             Inl e \<Rightarrow> Inl e
           | Inr attributeSelector' \<Rightarrow> remove_entries omitPath attributeSelector' rest))"
  by pat_completeness auto
termination
  by (relation "measure (\<lambda>x. case x of
          Inl (p, a, b) \<Rightarrow> 2 * size b + 2
        | Inr (p, a, es) \<Rightarrow> 2 * size_list (size_prod (\<lambda>_. 0) size) es)")
     (auto dest!: normalize_selector_entries_size)

declare includes_selector.simps [simp del] add_selector.simps [simp del]
  remove_selector.simps [simp del]

subsection \<open>Attribute selectors\<close>

text \<open>
  A selector over a set of names: \<^verbatim>\<open>true\<close>, \<^verbatim>\<open>false\<close>, or a mapping from such names to
  selectors over them; an object has each key once. \<^verbatim>\<open>undefined\<close> is admitted wherever a
  selector may stand, since the code reads it as \<^verbatim>\<open>false\<close>.
\<close>

fun selector_over :: "(string \<Rightarrow> bool) \<Rightarrow> jsvalue \<Rightarrow> bool" where
  "selector_over names Undefined = True"
| "selector_over names (Boolean b) = True"
| "selector_over names (PlainObject entries) =
     (distinct (map fst entries) \<and>
      list_all (\<lambda>entry. names (fst entry) \<and> selector_over names (snd entry)) entries)"
| "selector_over names ObjectPrototype = False"
| "selector_over names NonSelector = False"

text \<open>
  An attribute selector: its attribute names are non-empty (\<^verbatim>\<open>get\<close> and \<^verbatim>\<open>set\<close> reject an
  empty name).
\<close>

definition attribute_selector :: "jsvalue \<Rightarrow> bool" where
  "attribute_selector = selector_over (\<lambda>name. name \<noteq> [])"

text \<open>
  A name that is read and deleted as the own key it is: it is non-empty, it is none of
  the names an object inherits from \<^verbatim>\<open>Object.prototype\<close>, and it holds neither \<^verbatim>\<open>.\<close> nor
  \<^verbatim>\<open>[\<close>, so that \<^verbatim>\<open>omit\<close> does not read it as a path.
\<close>

definition own_name :: "string \<Rightarrow> bool" where
  "own_name name \<longleftrightarrow>
     name \<noteq> [] \<and> plain_key name \<and> name \<noteq> ''__proto__'' \<and> name \<notin> set Object_prototype_methods"

definition own_name_selector :: "jsvalue \<Rightarrow> bool" where
  "own_name_selector = selector_over own_name"

subsection \<open>A mapping without its leaves\<close>

text \<open>
  The entries of a mapping once every entry whose value is a boolean or \<^verbatim>\<open>undefined\<close> is
  dropped and every entry whose value is a mapping is kept, in its place, with that mapping
  treated the same way: \<^verbatim>\<open>{title: true, director: {name: true}}\<close> becomes \<^verbatim>\<open>{director: {}}\<close>.
\<close>

fun without_leaves :: "(string \<times> jsvalue) list \<Rightarrow> (string \<times> jsvalue) list" where
  "without_leaves [] = []"
| "without_leaves ((name, PlainObject entries) # rest) =
     (name, PlainObject (without_leaves entries)) # without_leaves rest"
| "without_leaves ((name, v) # rest) = without_leaves rest"

text \<open>What is left of a selector once its leaves are gone: \<^verbatim>\<open>false\<close> of a boolean.\<close>

definition minus_self :: "jsvalue \<Rightarrow> jsvalue" where
  "minus_self a =
     (case a of PlainObject entries \<Rightarrow> PlainObject (without_leaves entries) | _ \<Rightarrow> Boolean False)"

subsection \<open>What the union property says of one pair of selectors\<close>

definition add_ok :: "omit_path \<Rightarrow> jsvalue \<Rightarrow> jsvalue \<Rightarrow> bool" where
  "add_ok omitPath a b \<longleftrightarrow> (\<exists>r. add_selector omitPath a b = Inr r \<and> selector_over own_name r
       \<and> includes_selector r a = Inr True \<and> includes_selector r b = Inr True)"
section \<open>ComponentClient\<close>

subsection \<open>The attribute filter of \<^verbatim>\<open>_serializeQuery\<close>\<close>

text \<open>
  What the filter reads: an attribute has a name and answers \<^verbatim>\<open>operationIsAllowed\<close> (the
  filter takes the answer \<^verbatim>\<open>as boolean\<close>); a remote component has attributes by name,
  and \<^verbatim>\<open>getAttribute\<close> throws for a name it does not have; a component (a class or an
  instance, the \<^verbatim>\<open>this\<close> of the filter) may have a remote component.
\<close>

record attribute =
  getName :: string
  operationIsAllowed :: "string \<Rightarrow> bool"

record remote_component =
  attributes :: "(string \<times> attribute) list"

definition hasAttribute :: "remote_component \<Rightarrow> string \<Rightarrow> bool" where
  "hasAttribute remoteComponent name = (map_of (attributes remoteComponent) name \<noteq> None)"

definition getAttribute :: "remote_component \<Rightarrow> string \<Rightarrow> error + attribute" where
  "getAttribute remoteComponent name =
     (case map_of (attributes remoteComponent) name of
        None \<Rightarrow> Inl (MissingAttribute name)
      | Some a \<Rightarrow> Inr a)"

record component =
  getRemoteComponent :: "remote_component option"

definition attributeFilter :: "component \<Rightarrow> attribute \<Rightarrow> error + bool" where
  "attributeFilter this attribute =
     (case getRemoteComponent this of
        None \<Rightarrow> Inr False
      | Some remoteComponent \<Rightarrow>
          (let attributeName = getName attribute in
           if hasAttribute remoteComponent attributeName
           then (case getAttribute remoteComponent attributeName of
                   Inl e \<Rightarrow> Inl e
                 | Inr remoteAttribute \<Rightarrow> Inr (operationIsAllowed remoteAttribute ''set''))
           else Inr False))"

subsection \<open>Values in queries and on the wire\<close>

text \<open>
  A query is a plain structure (objects and arrays) over values of any kind \<open>'a\<close>:
  components, primitives, functions. What travels is JSON, with \<^verbatim>\<open>undefined\<close> for an
  absent value.
\<close>

datatype 'a plain =
    Value 'a
  | PlainArray "'a plain list"
  | PlainObj "(string \<times> 'a plain) list"

datatype json =
    JUndefined
  | JNull
  | JBoolean bool
  | JNumber int
  | JString string
  | JArray "json list"
  | JObject "(string \<times> json) list"

text \<open>The decimal name of an index, as in \<^verbatim>\<open>object[index]\<close>.\<close>

fun decimal :: "nat \<Rightarrow> string" where
  "decimal n =
     (if n < 10 then [''0123456789'' ! n]
      else decimal (n div 10) @ [''0123456789'' ! (n mod 10)])"

declare decimal.simps [simp del]

text \<open>
  \<^verbatim>\<open>(value as unknown[])[index]\<close>: an element of an array, \<^verbatim>\<open>undefined\<close> past its end; the
  cast checks nothing, so the read is defined for the other values too, and throws on
  \<^verbatim>\<open>undefined\<close> and \<^verbatim>\<open>null\<close>.
\<close>

fun element_at :: "json \<Rightarrow> nat \<Rightarrow> error + json" where
  "element_at (JArray xs) index = Inr (if index < length xs then xs ! index else JUndefined)"
| "element_at (JObject entries) index =
     Inr (case map_of entries (decimal index) of Some v \<Rightarrow> v | None \<Rightarrow> JUndefined)"
| "element_at (JString s) index =
     Inr (if index < length s then JString [s ! index] else JUndefined)"
| "element_at JUndefined index = Inl TypeError"
| "element_at JNull index = Inl TypeError"
| "element_at (JBoolean b) index = Inr JUndefined"
| "element_at (JNumber n) index = Inr JUndefined"

record request =
  request_query :: json
  request_components :: "json list option"
  request_version :: "int option"

record response =
  response_result :: json
  response_components :: json

record 'c send_options =
  rootComponent :: "'c option"

subsection \<open>Collaborators\<close>

text \<open>
  The client calls code that is not its own; it is a parameter here. \<open>'c\<close> are the
  component classes, \<open>'w\<close> is everything the calls may read and change (the local
  components and the remote side).
  \<^descr> \<open>serialize f w query\<close> is \<^verbatim>\<open>serialize(query, {componentDependencies, attributeFilter:
    f, target: 1})\<close>: the serialized query and the classes it has added to
    \<^verbatim>\<open>componentDependencies\<close>, in the order of the calls of \<^verbatim>\<open>add\<close> (a class may come
    several times).
  \<^descr> \<open>serializeComponent f w c\<close> is \<^verbatim>\<open>c.serialize({componentDependencies,
    ignoreEmptyComponents: true, attributeFilter: f, target: 1})\<close>: the serialized class,
    or \<open>None\<close> for \<^verbatim>\<open>undefined\<close>, and the classes added.
  \<^descr> \<open>receive request w\<close> is \<^verbatim>\<open>componentServer.receive(request)\<close>; \<open>Inl\<close> when the call
    throws or its promise rejects.
  \<^descr> \<open>deserialize root value w\<close> is \<^verbatim>\<open>deserialize(value, {rootComponent: root,
    deserializeFunctions: true, errorHandler, source: 1})\<close> with the client's
    \<^verbatim>\<open>errorHandler\<close>, which rethrows: \<open>Inl\<close> is the error thrown.
  \<^descr> \<open>ensureComponentClass\<close> gives the class of a component class or instance.
  Serializing with \<^verbatim>\<open>componentDependencies\<close> registers the classes met and looks none up,
  so it returns.
\<close>

record ('a, 'c, 'w) collaborators =
  serialize ::
    "(component \<Rightarrow> attribute \<Rightarrow> error + bool) \<Rightarrow> 'w \<Rightarrow> 'a plain \<Rightarrow> json \<times> 'c list"
  serializeComponent ::
    "(component \<Rightarrow> attribute \<Rightarrow> error + bool) \<Rightarrow> 'w \<Rightarrow> 'c \<Rightarrow> json option \<times> 'c list"
  receive :: "request \<Rightarrow> 'w \<Rightarrow> (error + response) \<times> 'w"
  deserialize :: "'c option \<Rightarrow> json \<Rightarrow> 'w \<Rightarrow> (error + 'a plain) \<times> 'w"
  ensureComponentClass :: "'a \<Rightarrow> error + 'c"

text \<open>
  The calls of \<^verbatim>\<open>receive\<close> and \<^verbatim>\<open>deserialize\<close> are recorded in the order they are made.
\<close>

datatype 'c call =
    Receive request
  | Deserialize "'c option" json

record ('c, 'w) run =
  world :: 'w
  calls :: "'c call list"

definition call_receive ::
  "('a, 'c, 'w) collaborators \<Rightarrow> request \<Rightarrow> ('c, 'w) run \<Rightarrow> (error + response) \<times> ('c, 'w) run"
where
  "call_receive env req st =
     (case receive env req (world st) of
        (r, w') \<Rightarrow> (r, \<lparr>world = w', calls = calls st @ [Receive req]\<rparr>))"

definition call_deserialize ::
  "('a, 'c, 'w) collaborators \<Rightarrow> 'c option \<Rightarrow> json \<Rightarrow> ('c, 'w) run
     \<Rightarrow> (error + 'a plain) \<times> ('c, 'w) run"
where
  "call_deserialize env root value st =
     (case deserialize env root value (world st) of
        (r, w') \<Rightarrow> (r, \<lparr>world = w', calls = calls st @ [Deserialize root value]\<rparr>))"

subsection \<open>\<^verbatim>\<open>_serializeQuery\<close>\<close>

text \<open>
  A \<^verbatim>\<open>Set\<close> of classes is the list of its elements in insertion order; \<^verbatim>\<open>add\<close> of an
  element it has changes nothing.
\<close>

definition Set_add :: "'c \<Rightarrow> 'c list \<Rightarrow> 'c list" where
  "Set_add c s = (if c \<in> set s then s else s @ [c])"

text \<open>
  The two variables that \<^verbatim>\<open>serializeComponentDependencies\<close> closes over and updates.
\<close>

record 'c dependency_state =
  handledComponentDependencies :: "'c list"
  serializedComponentDependencies :: "json list option"

text \<open>
  The \<^verbatim>\<open>for ... of componentDependencies.values()\<close> loop, carrying
  \<^verbatim>\<open>additionalComponentDependency\<close>.
\<close>

fun serializeEach ::
  "('a, 'c, 'w) collaborators \<Rightarrow> 'w \<Rightarrow> 'c list \<Rightarrow> 'c list \<Rightarrow> 'c dependency_state
     \<Rightarrow> 'c list \<times> 'c dependency_state" where
  "serializeEach env w [] additionalComponentDependency st = (additionalComponentDependency, st)"
| "serializeEach env w (componentDependency # rest) additionalComponentDependency st =
     (if componentDependency \<in> set (handledComponentDependencies st)
      then serializeEach env w rest additionalComponentDependency st
      else
        (case serializeComponent env attributeFilter w componentDependency of
           (serializedComponentDependency, registered) \<Rightarrow>
             serializeEach env w rest
               (fold Set_add registered additionalComponentDependency)
               \<lparr>handledComponentDependencies =
                   Set_add componentDependency (handledComponentDependencies st),
                serializedComponentDependencies =
                  (case serializedComponentDependency of
                     None \<Rightarrow> serializedComponentDependencies st
                   | Some s \<Rightarrow>
                       Some ((case serializedComponentDependencies st of
                                None \<Rightarrow> [] | Some l \<Rightarrow> l) @ [s]))\<rparr>))"

lemma serializeEach_handled:
  "serializeEach env w cds additional st = (additional', st') \<Longrightarrow>
     set (handledComponentDependencies st') = set (handledComponentDependencies st) \<union> set cds"
  by (induction cds arbitrary: additional st)
     (auto simp: Set_add_def split: if_splits prod.splits)

lemma serializeEach_nothing_new:
  "serializeEach env w cds additional st = (additional', st') \<Longrightarrow>
   set cds \<subseteq> set (handledComponentDependencies st) \<Longrightarrow> additional' = additional \<and> st' = st"
  by (induction cds arbitrary: additional st) auto

text \<open>
  \<^verbatim>\<open>serializeComponentDependencies\<close> calls itself on the classes found in the round
  until a round finds none. A program has finitely many component classes (\<open>'c\<close> is a
  finite type); every round that serializes something handles a class more, and a round
  that serializes nothing finds nothing, so the recursion ends.
\<close>

function serializeComponentDependencies ::
  "('a, 'c::finite, 'w) collaborators \<Rightarrow> 'w \<Rightarrow> 'c list \<Rightarrow> 'c dependency_state
     \<Rightarrow> 'c dependency_state"
where
  "serializeComponentDependencies env w componentDependencies st =
     (if componentDependencies = [] then st
      else (case serializeEach env w componentDependencies [] st of
              (additionalComponentDependency, st') \<Rightarrow>
                serializeComponentDependencies env w additionalComponentDependency st'))"
  by pat_completeness auto
termination
proof (relation "measure (\<lambda>(env, w, cds, st).
          2 * card (UNIV - set (handledComponentDependencies st)) + (if cds = [] then 0 else 1))",
       goal_cases)
  case 1
  show ?case by simp
next
  case (2 env w cds st additional st')
  then have run: "serializeEach env w cds [] st = (additional, st')" by simp
  show ?case
  proof (cases "set cds \<subseteq> set (handledComponentDependencies st)")
    case True
    with serializeEach_nothing_new[OF run] 2(1) show ?thesis by simp
  next
    case False
    from serializeEach_handled[OF run]
    have "UNIV - set (handledComponentDependencies st')
            \<subset> UNIV - set (handledComponentDependencies st)"
      using False by auto
    then have "card (UNIV - set (handledComponentDependencies st'))
                 < card (UNIV - set (handledComponentDependencies st))"
      by (intro psubset_card_mono) auto
    then show ?thesis by simp
  qed
qed

declare serializeComponentDependencies.simps [simp del]

definition serializeQuery ::
  "('a, 'c::finite, 'w) collaborators \<Rightarrow> 'w \<Rightarrow> 'a plain \<Rightarrow> json \<times> json list option" where
  "serializeQuery env w query =
     (case serialize env attributeFilter w query of
        (serializedQuery, registered) \<Rightarrow>
          (let componentDependencies = fold Set_add registered [];
               st = serializeComponentDependencies env w componentDependencies
                      \<lparr>handledComponentDependencies = [],
                       serializedComponentDependencies = None\<rparr>
           in (serializedQuery, serializedComponentDependencies st)))"

subsection \<open>\<^verbatim>\<open>_sendOne\<close> and \<^verbatim>\<open>_sendMany\<close>\<close>

record ('a, 'c) operation =
  params :: "'a plain \<times> 'c send_options"

record ('a, 'c) client =
  client_version :: "int option"
  sendBatcher :: "('a, 'c) operation list option"

text \<open>
  The constructor keeps the version and creates the batcher when \<^verbatim>\<open>batchable\<close> is set. Its
  checks (the component server has a \<^verbatim>\<open>receive\<close> function, the mixins are mixins) hold of
  every \<open>collaborators\<close> by its type; the mixins and the introspected component play no
  part in sending.
\<close>

definition ComponentClient :: "int option \<Rightarrow> bool \<Rightarrow> ('a, 'c) client" where
  "ComponentClient version batchable =
     \<lparr>client_version = version, sendBatcher = (if batchable then Some [] else None)\<rparr>"

definition sendOne ::
  "('a, 'c::finite, 'w) collaborators \<Rightarrow> ('a, 'c) client \<Rightarrow> 'a plain \<Rightarrow> 'c send_options
     \<Rightarrow> ('c, 'w) run \<Rightarrow> (error + 'a plain) \<times> ('c, 'w) run"
where
  "sendOne env client query options st =
     (case serializeQuery env (world st) query of
        (serializedQuery, serializedComponents) \<Rightarrow>
          (case call_receive env
                  \<lparr>request_query = serializedQuery,
                   request_components = serializedComponents,
                   request_version = client_version client\<rparr> st of
             (Inl e, st1) \<Rightarrow> (Inl e, st1)
           | (Inr serializedResponse, st1) \<Rightarrow>
               (case call_deserialize env (rootComponent options)
                       (response_components serializedResponse) st1 of
                  (Inl e, st2) \<Rightarrow> (Inl e, st2)
                | (Inr _, st2) \<Rightarrow>
                    call_deserialize env (rootComponent options)
                      (response_result serializedResponse) st2)))"

text \<open>
  How a pending result ends: \<^verbatim>\<open>operation.resolve(value)\<close> or \<^verbatim>\<open>operation.reject(error)\<close>.
\<close>

datatype 'v settlement = Resolved 'v | Rejected error

fun settlement_of :: "error + 'v \<Rightarrow> 'v settlement" where
  "settlement_of (Inr v) = Resolved v"
| "settlement_of (Inl e) = Rejected e"

text \<open>
  The \<^verbatim>\<open>for (let index = 0; ...)\<close> loop of \<^verbatim>\<open>_sendMany\<close>. The read of
  \<^verbatim>\<open>result[index]\<close> stands before the \<^verbatim>\<open>try\<close>: when it throws, the loop is left. The result
  is the settlements made, in the order of the operations, and the error thrown, if any.
\<close>

fun settleEach ::
  "('a, 'c, 'w) collaborators \<Rightarrow> ('a, 'c) operation list \<Rightarrow> nat \<Rightarrow> json \<Rightarrow> ('c, 'w) run
     \<Rightarrow> ('a plain settlement list \<times> error option) \<times> ('c, 'w) run" where
  "settleEach env [] index result st = (([], None), st)"
| "settleEach env (operation # rest) index result st =
     (case element_at result index of
        Inl e \<Rightarrow> (([], Some e), st)
      | Inr serializedResult \<Rightarrow>
          (case call_deserialize env (rootComponent (snd (params operation)))
                  serializedResult st of
             (r, st1) \<Rightarrow>
               (case settleEach env rest (Suc index) result st1 of
                  ((settlements, thrown), st2) \<Rightarrow>
                    ((settlement_of r # settlements, thrown), st2))))"

definition sendMany ::
  "('a, 'c::finite, 'w) collaborators \<Rightarrow> ('a, 'c) client \<Rightarrow> ('a, 'c) operation list
     \<Rightarrow> ('c, 'w) run \<Rightarrow> ('a plain settlement list \<times> error option) \<times> ('c, 'w) run"
where
  "sendMany env client operations st =
     (if length operations = 1 then
        (case sendOne env client (fst (params (hd operations)))
                (snd (params (hd operations))) st of
           (r, st1) \<Rightarrow> (([settlement_of r], None), st1))
      else
        (case serializeQuery env (world st)
                (PlainObj [(''||'', PlainArray (map (\<lambda>operation. fst (params operation))
                                                 operations))]) of
           (serializedQuery, serializedComponents) \<Rightarrow>
             (case call_receive env
                     \<lparr>request_query = serializedQuery,
                      request_components = serializedComponents,
                      request_version = client_version client\<rparr> st of
                (Inl e, st1) \<Rightarrow> (([], Some e), st1)
              | (Inr serializedResponse, st1) \<Rightarrow>
                  (case operations of
                     [] \<Rightarrow> (([], Some TypeError), st1)
                   | first # _ \<Rightarrow>
                       (case call_deserialize env (rootComponent (snd (params first)))
                               (response_components serializedResponse) st1 of
                          (Inl e, st2) \<Rightarrow> (([], Some e), st2)
                        | (Inr _, st2) \<Rightarrow>
                            settleEach env operations 0
                              (response_result serializedResponse) st2)))))"

subsection \<open>\<^verbatim>\<open>send\<close> and the method proxies\<close>

text \<open>
  What \<^verbatim>\<open>send\<close> returns: a value or an error at once, or the pending result of the
  operation put in the batcher, known by its place in the queue.
\<close>

datatype 'v promise = Settled "error + 'v" | Pending nat

text \<open>
  Modelled from the spec: \<^verbatim>\<open>Microbatcher\<close>, of the package \<^verbatim>\<open>microbatcher\<close>, is not among
  the sources. \<^verbatim>\<open>batch(query, options)\<close> puts an operation in the queue of pending
  operations and returns its pending result; at the end of the scheduling tick the queue
  is drained as a whole and the runner, \<^verbatim>\<open>_sendMany\<close>, is called once with all the
  operations, in the order they were put in. When the runner fails, every caller still
  pending receives that failure.
\<close>

definition batch ::
  "('a, 'c) operation list \<Rightarrow> 'a plain \<times> 'c send_options
     \<Rightarrow> 'a plain promise \<times> ('a, 'c) operation list" where
  "batch operations p = (Pending (length operations), operations @ [\<lparr>params = p\<rparr>])"

definition flush ::
  "('a, 'c::finite, 'w) collaborators \<Rightarrow> ('a, 'c) client \<times> ('c, 'w) run
     \<Rightarrow> 'a plain settlement list \<times> ('a, 'c) client \<times> ('c, 'w) run" where
  "flush env cs =
     (case cs of (client, st) \<Rightarrow>
        (case sendBatcher client of
           None \<Rightarrow> ([], client, st)
         | Some operations \<Rightarrow>
             if operations = [] then ([], client, st)
             else (case sendMany env client operations st of
                     ((settlements, thrown), st') \<Rightarrow>
                       (settlements @
                          (case thrown of
                             None \<Rightarrow> []
                           | Some e \<Rightarrow>
                               replicate (length operations - length settlements) (Rejected e)),
                        client\<lparr>sendBatcher := Some []\<rparr>, st'))))"

definition send ::
  "('a, 'c::finite, 'w) collaborators \<Rightarrow> 'a plain \<Rightarrow> 'c send_options
     \<Rightarrow> ('a, 'c) client \<times> ('c, 'w) run
     \<Rightarrow> 'a plain promise \<times> ('a, 'c) client \<times> ('c, 'w) run" where
  "send env query options cs =
     (case cs of (client, st) \<Rightarrow>
        (case sendBatcher client of
           Some operations \<Rightarrow>
             (case batch operations (query, options) of
                (pending, operations') \<Rightarrow>
                  (pending, client\<lparr>sendBatcher := Some operations'\<rparr>, st))
         | None \<Rightarrow>
             (case sendOne env client query options st of
                (r, st') \<Rightarrow> (Settled r, client, st'))))"

text \<open>
  The function \<^verbatim>\<open>_createMethodProxy(name)\<close> returns, called on \<^verbatim>\<open>this\<close> with \<^verbatim>\<open>args\<close>.
\<close>

definition methodProxy_query :: "string \<Rightarrow> 'a \<Rightarrow> 'a plain list \<Rightarrow> 'a plain" where
  "methodProxy_query name this args =
     PlainObj [(''<='', Value this), (name @ ''=>'', PlainObj [(''()'', PlainArray args)])]"

definition createMethodProxy ::
  "('a, 'c::finite, 'w) collaborators \<Rightarrow> string \<Rightarrow> 'a \<Rightarrow> 'a plain list
     \<Rightarrow> ('a, 'c) client \<times> ('c, 'w) run
     \<Rightarrow> 'a plain promise \<times> ('a, 'c) client \<times> ('c, 'w) run" where
  "createMethodProxy env name this args cs =
     (let query = methodProxy_query name this args in
      case ensureComponentClass env this of
        Inl e \<Rightarrow> (Settled (Inl e), cs)
      | Inr rootComponent' \<Rightarrow> send env query \<lparr>rootComponent = Some rootComponent'\<rparr> cs)"

subsection \<open>Notions used to state the properties of the client\<close>

text \<open>The requests received by the component server, in the order of the calls.\<close>

fun receives :: "'c call list \<Rightarrow> request list" where
  "receives [] = []"
| "receives (Receive req # cs) = req # receives cs"
| "receives (Deserialize root value # cs) = receives cs"

text \<open>The query of a batch, and the request the client makes of a query.\<close>

definition batch_query :: "('a, 'c) operation list \<Rightarrow> 'a plain" where
  "batch_query operations =
     PlainObj [(''||'', PlainArray (map (\<lambda>operation. fst (params operation)) operations))]"

definition request_of ::
  "('a, 'c::finite, 'w) collaborators \<Rightarrow> ('a, 'c) client \<Rightarrow> 'w \<Rightarrow> 'a plain \<Rightarrow> request" where
  "request_of env client w query =
     \<lparr>request_query = fst (serializeQuery env w query),
      request_components = snd (serializeQuery env w query),
      request_version = client_version client\<rparr>"

text \<open>
  A job is a serialized value with the root component to deserialize it against. The
  jobs of a batch pair each operation's root component with the result at the operation's
  index. Jobs are deserialized one after the other, each in the world the one before has
  left, whether that one threw or not.
\<close>

definition element_or_undefined :: "json list \<Rightarrow> nat \<Rightarrow> json" where
  "element_or_undefined xs index = (if index < length xs then xs ! index else JUndefined)"

fun batch_jobs ::
  "('a, 'c) operation list \<Rightarrow> nat \<Rightarrow> json list \<Rightarrow> ('c option \<times> json) list" where
  "batch_jobs [] index results = []"
| "batch_jobs (operation # rest) index results =
     (rootComponent (snd (params operation)), element_or_undefined results index)
       # batch_jobs rest (Suc index) results"

fun jobs_results ::
  "('a, 'c, 'w) collaborators \<Rightarrow> ('c option \<times> json) list \<Rightarrow> 'w \<Rightarrow> (error + 'a plain) list"
where
  "jobs_results env [] w = []"
| "jobs_results env ((root, value) # jobs) w =
     (case deserialize env root value w of (r, w') \<Rightarrow> r # jobs_results env jobs w')"

fun jobs_world ::
  "('a, 'c, 'w) collaborators \<Rightarrow> ('c option \<times> json) list \<Rightarrow> 'w \<Rightarrow> 'w" where
  "jobs_world env [] w = w"
| "jobs_world env ((root, value) # jobs) w =
     (case deserialize env root value w of (r, w') \<Rightarrow> jobs_world env jobs w')"

text \<open>
  Three calls of method proxies on a batchable client with nothing pending, then the end
  of the scheduling tick.
\<close>

definition three_calls_in_one_tick ::
  "('a, 'c::finite, 'w) collaborators \<Rightarrow> int option
     \<Rightarrow> string \<times> 'a \<times> 'a plain list \<Rightarrow> string \<times> 'a \<times> 'a plain list
     \<Rightarrow> string \<times> 'a \<times> 'a plain list \<Rightarrow> ('c, 'w) run
     \<Rightarrow> 'a plain promise list \<times> 'a plain settlement list \<times> ('c, 'w) run" where
  "three_calls_in_one_tick env version call1 call2 call3 st =
     (case call1 of (name1, this1, args1) \<Rightarrow>
      case call2 of (name2, this2, args2) \<Rightarrow>
      case call3 of (name3, this3, args3) \<Rightarrow>
      case createMethodProxy env name1 this1 args1 (ComponentClient version True, st) of
        (pending1, cs1) \<Rightarrow>
      case createMethodProxy env name2 this2 args2 cs1 of (pending2, cs2) \<Rightarrow>
      case createMethodProxy env name3 this3 args3 cs2 of (pending3, cs3) \<Rightarrow>
      case flush env cs3 of (settlements, client', st') \<Rightarrow>
        ([pending1, pending2, pending3], settlements, st'))"

text \<open>
  The dependency graph of the component classes: \<open>c\<close> depends on \<open>d\<close> when serializing
  \<open>c\<close> adds \<open>d\<close> to the component dependencies. The entries of a list of classes are
  the serialized forms of those of them that do not serialize to \<^verbatim>\<open>undefined\<close>, in order;
  the client leaves \<^verbatim>\<open>serializedComponents\<close> undefined when there is none.
\<close>

definition dependency_graph :: "('a, 'c, 'w) collaborators \<Rightarrow> 'w \<Rightarrow> ('c \<times> 'c) set" where
  "dependency_graph env w =
     {(c, d). d \<in> set (snd (serializeComponent env attributeFilter w c))}"

definition serialized_entries ::
  "('a, 'c, 'w) collaborators \<Rightarrow> 'w \<Rightarrow> 'c list \<Rightarrow> json list option" where
  "serialized_entries env w classes =
     (case List.map_filter (\<lambda>c. fst (serializeComponent env attributeFilter w c)) classes of
        [] \<Rightarrow> None
      | entries \<Rightarrow> Some entries)"

text \<open>
  What \<^verbatim>\<open>serializeComponentDependencies\<close> keeps true of its two variables: no class is
  handled twice, and the serialized components are the entries of the handled classes.
\<close>

definition tracked :: "('a, 'c, 'w) collaborators \<Rightarrow> 'w \<Rightarrow> 'c dependency_state \<Rightarrow> bool" where
  "tracked env w st \<longleftrightarrow>
     distinct (handledComponentDependencies st)
   \<and> serializedComponentDependencies st = serialized_entries env w (handledComponentDependencies st)"

subsection \<open>A small system to run the client on\<close>

text \<open>
  Three classes \<open>A\<close>, \<open>B\<close>, \<open>C\<close>, where \<open>A\<close> depends on \<open>B\<close> (twice) and \<open>B\<close> on \<open>C\<close>; every
  query refers to \<open>A\<close> (twice). Values are strings. The server answers every request with
  three results, the second an error sentinel. The deserializer knows no component class.
  The world counts the requests received.
\<close>

fun toJSON :: "string plain \<Rightarrow> json" where
  "toJSON (Value s) = JString s"
| "toJSON (PlainArray xs) = JArray (map toJSON xs)"
| "toJSON (PlainObj entries) = JObject (map (\<lambda>(name, v). (name, toJSON v)) entries)"

fun example_deserialize ::
  "char option \<Rightarrow> json \<Rightarrow> nat \<Rightarrow> (error + string plain) \<times> nat" where
  "example_deserialize root (JString s) w = (Inr (Value s), w)"
| "example_deserialize root (JObject [(name, JString s)]) w =
     (if name = ''__error'' then Inl (RemoteError s)
      else if name = ''__Component'' then Inl (UnknownComponent s)
      else Inr (PlainObj [(name, Value s)]), w)"
| "example_deserialize root value w = (Inr (PlainArray []), w)"

definition example_serializeComponent :: "char \<Rightarrow> json option \<times> char list" where
  "example_serializeComponent c =
     (if c = CHR ''A''
      then (Some (JObject [(''__Component'', JString ''A'')]), [CHR ''B'', CHR ''B''])
      else if c = CHR ''B'' then (Some (JObject [(''__Component'', JString ''B'')]), [CHR ''C''])
      else if c = CHR ''C'' then (Some (JObject [(''__Component'', JString ''C'')]), [])
      else (None, []))"

definition example_response :: response where
  "example_response =
     \<lparr>response_result =
        JArray [JString ''first'', JObject [(''__error'', JString ''boom'')], JString ''third''],
      response_components = JUndefined\<rparr>"

definition example :: "(string, char, nat) collaborators" where
  "example =
     \<lparr>serialize = (\<lambda>f w query. (toJSON query, [CHR ''A'', CHR ''A''])),
      serializeComponent = (\<lambda>f w c. example_serializeComponent c),
      receive = (\<lambda>request w. (Inr example_response, Suc w)),
      deserialize = example_deserialize,
      ensureComponentClass = (\<lambda>this. Inr (CHR ''A''))\<rparr>"

text \<open>The same system where the class \<open>B\<close> has nothing to serialize.\<close>

definition example_empty_B :: "(string, char, nat) collaborators" where
  "example_empty_B =
     example\<lparr>serializeComponent :=
       (\<lambda>f w c. if c = CHR ''B'' then (None, [CHR ''C'']) else example_serializeComponent c)\<rparr>"

text \<open>
  The same system where the query holds \<open>A\<close> itself, so that \<open>A\<close> is serialized within the
  query and the serialization of the query registers the dependency \<open>B\<close> of \<open>A\<close>, not \<open>A\<close>.
\<close>

definition example_inline_A :: "(string, char, nat) collaborators" where
  "example_inline_A =
     example\<lparr>serialize := (\<lambda>f w query. (toJSON query, [CHR ''B'', CHR ''B'']))\<rparr>"

text \<open>
  The same system where the response brings the class \<open>Ghost\<close>, which the deserializer does
  not know.
\<close>

definition example_unknown_component :: "(string, char, nat) collaborators" where
  "example_unknown_component =
     example\<lparr>receive := (\<lambda>request w.
       (Inr (example_response\<lparr>response_components :=
               JObject [(''__Component'', JString ''Ghost'')]\<rparr>), Suc w))\<rparr>"

text \<open>Three operations, as three calls of method proxies put them in the batcher.\<close>

definition example_operations :: "(string, char) operation list" where
  "example_operations =
     [\<lparr>params = (PlainObj [(''<='', Value ''movie1''), (''load=>'', PlainObj [(''()'', PlainArray [])])],
                 \<lparr>rootComponent = Some (CHR ''A'')\<rparr>)\<rparr>,
      \<lparr>params = (PlainObj [(''<='', Value ''movie2''), (''load=>'', PlainObj [(''()'', PlainArray [])])],
                 \<lparr>rootComponent = Some (CHR ''B'')\<rparr>)\<rparr>,
      \<lparr>params = (PlainObj [(''<='', Value ''movie3''), (''load=>'', PlainObj [(''()'', PlainArray [])])],
                 \<lparr>rootComponent = Some (CHR ''C'')\<rparr>)\<rparr>]"

section \<open>The component server\<close>


section \<open>Serialization and deserialization of component graphs\<close>

text \<open>
  Modelled from the spec: \<^verbatim>\<open>serialize\<close> and \<^verbatim>\<open>deserialize\<close>, of the package
  \<^verbatim>\<open>@layr/component\<close>, are not among the sources (a test of \<^verbatim>\<open>serialize\<close> is, and the
  serializer below agrees with it on every expectation of that test that uses no attribute
  filter). The definitions follow sections 3, 4.2 and 4.3 of the spec, with the default
  options: every set attribute is serialized, \<^verbatim>\<open>serializeFunctions\<close> and
  \<^verbatim>\<open>deserializeFunctions\<close> are off unless given, and the error handler rethrows.
\<close>

text \<open>
  The values: \<^verbatim>\<open>undefined\<close>, \<^verbatim>\<open>null\<close>, booleans, numbers, strings, arrays, plain objects,
  functions (their source text and own properties), component classes (their name and
  their set static attributes) and component instances (the name of their class, the
  \<^verbatim>\<open>isNew\<close> flag and their set attributes). An unset attribute is never serialized, so it
  is left out of the value.
\<close>

datatype val =
    VUndefined
  | VNull
  | VBoolean bool
  | VNumber int
  | VString string
  | VArray "val list"
  | VObject "(string \<times> val) list"
  | VFunction string "(string \<times> val) list"
  | VClass string "(string \<times> val) list"
  | VInstance string bool "(string \<times> val) list"

record serialize_options =
  knownComponents :: "string list"
  serializeFunctions :: bool

text \<open>
  What \<^verbatim>\<open>deserialize\<close> is given: the names of the classes that the root component's
  registry resolves, and \<^verbatim>\<open>deserializeFunctions\<close>. The registry holds no instance here, so
  an instance of the payload is a fresh one (\<^verbatim>\<open>__new\<close>) or a shell, with the attributes
  of the payload and no other.
\<close>

record deserialize_options =
  registry :: "string list"
  deserializeFunctions :: bool

text \<open>The first error of a list of results, or all the values.\<close>

fun collect :: "(error + 'a) list \<Rightarrow> error + 'a list" where
  "collect [] = Inr []"
| "collect (Inl e # rs) = Inl e"
| "collect (Inr x # rs) = (case collect rs of Inl e \<Rightarrow> Inl e | Inr xs \<Rightarrow> Inr (x # xs))"

fun is_function :: "val \<Rightarrow> bool" where
  "is_function (VFunction source properties) = True"
| "is_function _ = False"

fun serialize_value :: "serialize_options \<Rightarrow> val \<Rightarrow> error + json" where
  "serialize_value options VUndefined = Inr (JObject [(''__undefined'', JBoolean True)])"
| "serialize_value options VNull = Inr JNull"
| "serialize_value options (VBoolean b) = Inr (JBoolean b)"
| "serialize_value options (VNumber n) = Inr (JNumber n)"
| "serialize_value options (VString s) = Inr (JString s)"
| "serialize_value options (VArray xs) =
     (case collect (map (serialize_value options) xs) of
        Inl e \<Rightarrow> Inl e
      | Inr js \<Rightarrow> Inr (JArray js))"
| "serialize_value options (VObject entries) =
     (case collect (map (\<lambda>(name, v). case serialize_value options v of
                                          Inl e \<Rightarrow> Inl e | Inr j \<Rightarrow> Inr (name, j)) entries) of
        Inl e \<Rightarrow> Inl e
      | Inr js \<Rightarrow> Inr (JObject js))"
| "serialize_value options (VFunction source properties) =
     (if serializeFunctions options
      then (case collect (map (\<lambda>(name, v). case serialize_value options v of
                                               Inl e \<Rightarrow> Inl e | Inr j \<Rightarrow> Inr (name, j))
                            properties) of
              Inl e \<Rightarrow> Inl e
            | Inr js \<Rightarrow> Inr (JObject ((''__function'', JString source) # js)))
      else (case collect (map (\<lambda>(name, v). case serialize_value options v of
                                               Inl e \<Rightarrow> Inl e | Inr j \<Rightarrow> Inr (name, j))
                            (filter (\<lambda>(name, v). \<not> is_function v) properties)) of
              Inl e \<Rightarrow> Inl e
            | Inr js \<Rightarrow> Inr (JObject js)))"
| "serialize_value options (VClass name attrs) =
     (if name \<in> set (knownComponents options)
      then (case collect (map (\<lambda>(name, v). case serialize_value options v of
                                               Inl e \<Rightarrow> Inl e | Inr j \<Rightarrow> Inr (name, j))
                            attrs) of
              Inl e \<Rightarrow> Inl e
            | Inr js \<Rightarrow> Inr (JObject ((''__Component'', JString name) # js)))
      else Inl (UnknownComponent name))"
| "serialize_value options (VInstance name isNew attrs) =
     (if name \<in> set (knownComponents options)
      then (case collect (map (\<lambda>(name, v). case serialize_value options v of
                                               Inl e \<Rightarrow> Inl e | Inr j \<Rightarrow> Inr (name, j))
                            attrs) of
              Inl e \<Rightarrow> Inl e
            | Inr js \<Rightarrow>
                Inr (JObject ((''__component'', JString name)
                       # (if isNew then [(''__new'', JBoolean True)] else []) @ js)))
      else Inl (UnknownComponent name))"

text \<open>The keys of the wire format that are not attribute names.\<close>

definition reserved :: "string set" where
  "reserved = {''__undefined'', ''__error'', ''__Component'', ''__component'', ''__new'',
               ''__function''}"

fun deserialize_value :: "deserialize_options \<Rightarrow> json \<Rightarrow> error + val" where
  "deserialize_value options JUndefined = Inr VUndefined"
| "deserialize_value options JNull = Inr VNull"
| "deserialize_value options (JBoolean b) = Inr (VBoolean b)"
| "deserialize_value options (JNumber n) = Inr (VNumber n)"
| "deserialize_value options (JString s) = Inr (VString s)"
| "deserialize_value options (JArray js) =
     (case collect (map (deserialize_value options) js) of
        Inl e \<Rightarrow> Inl e
      | Inr vs \<Rightarrow> Inr (VArray vs))"
| "deserialize_value options (JObject entries) =
     (if map_of entries ''__undefined'' = Some (JBoolean True) then Inr VUndefined
      else case map_of entries ''__error'' of
        Some (JString message) \<Rightarrow> Inl (RemoteError message)
      | _ \<Rightarrow>
        (case collect (map (\<lambda>(name, j). case deserialize_value options j of
                                             Inl e \<Rightarrow> Inl e | Inr v \<Rightarrow> Inr (name, v))
                          (filter (\<lambda>(name, j). name \<notin> reserved) entries)) of
           Inl e \<Rightarrow> Inl e
         | Inr attrs \<Rightarrow>
            (case map_of entries ''__Component'' of
               Some (JString name) \<Rightarrow>
                 if name \<in> set (registry options) then Inr (VClass name attrs)
                 else Inl (UnknownComponent name)
             | _ \<Rightarrow>
               (case map_of entries ''__component'' of
                  Some (JString name) \<Rightarrow>
                    if name \<in> set (registry options)
                    then Inr (VInstance name (map_of entries ''__new'' = Some (JBoolean True))
                                attrs)
                    else Inl (UnknownComponent name)
                | _ \<Rightarrow>
                  (case map_of entries ''__function'' of
                     Some (JString source) \<Rightarrow>
                       if deserializeFunctions options then Inr (VFunction source attrs)
                       else Inl FunctionDeserializationDisabled
                   | _ \<Rightarrow> Inr (VObject attrs))))))"

text \<open>
  The values that hold no function, no component of a class outside the known ones, and
  no key of the wire format as the name of a property or an attribute.
\<close>

fun plain_data :: "string list \<Rightarrow> val \<Rightarrow> bool" where
  "plain_data known (VArray xs) = list_all (plain_data known) xs"
| "plain_data known (VObject entries) =
     list_all (\<lambda>entry. fst entry \<notin> reserved \<and> plain_data known (snd entry)) entries"
| "plain_data known (VFunction source properties) = False"
| "plain_data known (VClass name attrs) =
     (name \<in> set known \<and>
      list_all (\<lambda>entry. fst entry \<notin> reserved \<and> plain_data known (snd entry)) attrs)"
| "plain_data known (VInstance name isNew attrs) =
     (name \<in> set known \<and>
      list_all (\<lambda>entry. fst entry \<notin> reserved \<and> plain_data known (snd entry)) attrs)"
| "plain_data known _ = True"

text \<open>
  A value makes the round trip when it can be serialized with the given known components
  and deserializing the result against the same classes gives the value back.
\<close>

definition round_trips :: "string list \<Rightarrow> bool \<Rightarrow> bool \<Rightarrow> val \<Rightarrow> bool" where
  "round_trips known sf df v \<longleftrightarrow>
     (\<exists>j. serialize_value \<lparr>knownComponents = known, serializeFunctions = sf\<rparr> v = Inr j
        \<and> deserialize_value \<lparr>registry = known, deserializeFunctions = df\<rparr> j = Inr v)"


subsection \<open>The attribute filter in the serializer\<close>

text \<open>
  Modelled from the spec: the step of \<^verbatim>\<open>serialize\<close> that consults \<^verbatim>\<open>attributeFilter\<close>
  (section 4.2, steps 3, 4 and 7); the serializer is not among the sources. A component, a
  class or an instance, emits after its \<^verbatim>\<open>__Component\<close> or \<^verbatim>\<open>__component\<close> key the serialized
  value of each of its set attributes that passes the filter, under the name of the
  attribute. The filter is invoked with \<^verbatim>\<open>this\<close> bound to the owning component and receives
  the attribute being considered. An attribute that does not pass is left out, as an unset
  one is. The test of \<^verbatim>\<open>serialize\<close> among the sources expects the same: with a filter that
  lets \<^verbatim>\<open>title\<close> alone through, the movie is sent as
  \<^verbatim>\<open>{__component: 'Movie', title: 'Inception'}\<close>, without its director. The serializer
  \<^const>\<open>serialize_value\<close> above is the one with the default filter, which every set attribute
  passes.

  The set attributes of the component are given with their serialized values, in order;
  an error that the filter throws ends the serialization.
\<close>

fun serializeAttributes ::
  "(component \<Rightarrow> attribute \<Rightarrow> error + bool) \<Rightarrow> component \<Rightarrow> (attribute \<times> json) list
     \<Rightarrow> error + (string \<times> json) list" where
  "serializeAttributes attributeFilter' this [] = Inr []"
| "serializeAttributes attributeFilter' this ((attribute, serializedValue) # rest) =
     (case attributeFilter' this attribute of
        Inl e \<Rightarrow> Inl e
      | Inr passes \<Rightarrow>
          (case serializeAttributes attributeFilter' this rest of
             Inl e \<Rightarrow> Inl e
           | Inr entries \<Rightarrow>
               Inr (if passes then (getName attribute, serializedValue) # entries else entries)))"



section \<open>Properties of the attribute selector\<close>

lemma includes_entries_all:
  "list_all (\<lambda>entry. includes_selector (property x (fst entry)) (snd entry) = Inr True) es
     \<Longrightarrow> includes_entries x es = Inr True"
  by (induction es) auto

lemma selector_over_own_property:
  "selector_over names (PlainObject es) \<Longrightarrow> (n, s) \<in> set es \<Longrightarrow> property (PlainObject es) n = s"
  by simp

lemma selector_over_entry:
  "selector_over names (PlainObject es) \<Longrightarrow> entry \<in> set es \<Longrightarrow>
     names (fst entry) \<and> selector_over names (snd entry)"
  by (simp add: list_all_iff)

lemma includes_selector_same:
  "selector_over names a \<Longrightarrow> includes_selector a a = Inr True"
proof (induction a)
  case (PlainObject es)
  have "list_all (\<lambda>entry. includes_selector (property (PlainObject es) (fst entry)) (snd entry) = Inr True) es"
    unfolding list_all_iff
  proof
    fix entry assume e: "entry \<in> set es"
    obtain n s where ns: "entry = (n, s)" by (cases entry)
    from selector_over_entry[OF PlainObject.prems e] ns have "selector_over names s" by simp
    moreover from e ns have "s \<in> Basic_BNFs.snds entry" by simp
    ultimately have "includes_selector s s = Inr True" using PlainObject.IH e by blast
    moreover from PlainObject.prems e ns have "property (PlainObject es) n = s"
      by (simp only: selector_over_own_property)
    ultimately show "includes_selector (property (PlainObject es) (fst entry)) (snd entry) = Inr True"
      using ns by simp
  qed
  then show ?case by (simp add: includes_selector.simps includes_entries_all)
qed (simp_all add: includes_selector.simps)

lemma list_all_update:
  "P (k, v) \<Longrightarrow> list_all P al \<Longrightarrow> list_all P (AList.update k v al)"
  by (induction al) auto

lemma list_all_delete: "list_all P al \<Longrightarrow> list_all P (AList.delete k al)"
  by (induction al) auto

lemma selector_over_normalize:
  "selector_over names a \<Longrightarrow>
     \<exists>a'. normalize_selector a = Inr a' \<and> selector_over names a' \<and> a' \<noteq> Undefined
        \<and> (a' = Boolean False \<or> a' = Boolean True \<or> (\<exists>es. a' = PlainObject es))"
  by (cases a) auto

lemma own_name_property:
  assumes "selector_over own_name (PlainObject es)" and "own_name n"
  shows "selector_over own_name (property (PlainObject es) n)"
proof (cases "map_of es n")
  case None
  with assms(2) show ?thesis by (simp add: own_name_def)
next
  case (Some s)
  then have "(n, s) \<in> set es" by (rule map_of_SomeD)
  with assms(1) have "selector_over own_name s" by (auto simp: list_all_iff)
  with Some show ?thesis by simp
qed

lemma includes_selector_normalize_cong:
  "normalize_selector x = normalize_selector y \<Longrightarrow> includes_selector x b = includes_selector y b"
  by (simp add: includes_selector.simps)

lemma includes_selector_false:
  "selector_over names x \<Longrightarrow> normalize_selector b = Inr (Boolean False) \<Longrightarrow>
     includes_selector x b = Inr True"
  by (cases x) (auto simp: includes_selector.simps)

lemma includes_selector_true:
  "normalize_selector b = Inr b' \<Longrightarrow> includes_selector (Boolean True) b = Inr True"
  by (cases b') (auto simp: includes_selector.simps)

lemma set_selector_object:
  assumes "own_name name" "selector_over own_name (PlainObject kvs)" "selector_over own_name s"
  shows "\<exists>kvs' s'. set_selector omitPath (PlainObject kvs) name s = Inr (PlainObject kvs')
            \<and> normalize_selector s = Inr s'
            \<and> selector_over own_name (PlainObject kvs')
            \<and> (\<forall>n. n \<noteq> name \<longrightarrow> map_of kvs' n = map_of kvs n)
            \<and> map_of kvs' name = (if s' = Boolean False then None else Some s')
            \<and> normalize_selector (property (PlainObject kvs') name) = normalize_selector s"
proof -
  from selector_over_normalize[OF assms(3)] obtain s' where s': "normalize_selector s = Inr s'"
      "selector_over own_name s'" "s' \<noteq> Undefined"
      "s' = Boolean False \<or> s' = Boolean True \<or> (\<exists>es. s' = PlainObject es)"
    by blast
  from assms(1) have name: "name \<noteq> []" "plain_key name" "name \<noteq> ''__proto__''"
      "name \<notin> set Object_prototype_methods"
    by (simp_all add: own_name_def)
  show ?thesis
  proof (cases "s' = Boolean False")
    case True
    have "set_selector omitPath (PlainObject kvs) name s = Inr (PlainObject (AList.delete name kvs))"
      using name(1,2) s'(1) True by (simp add: set_selector_def omit_def del: in_object.simps)
    moreover have "selector_over own_name (PlainObject (AList.delete name kvs))"
      using assms(2) by (simp add: AList.distinct_delete list_all_delete)
    moreover have none: "map_of (AList.delete name kvs) name = None"
      by (simp add: AList.delete_conv')
    moreover have "\<forall>n. n \<noteq> name \<longrightarrow> map_of (AList.delete name kvs) n = map_of kvs n"
      by (simp add: AList.delete_conv')
    moreover have "normalize_selector (property (PlainObject (AList.delete name kvs)) name) = normalize_selector s"
      using none name(3,4) s'(1) True by simp
    ultimately show ?thesis using s'(1) True by simp
  next
    case False
    have "set_selector omitPath (PlainObject kvs) name s = Inr (PlainObject (AList.update name s' kvs))"
      using name(1) s'(1) False by (simp add: set_selector_def)
    moreover have "selector_over own_name (PlainObject (AList.update name s' kvs))"
      using assms(1,2) s'(2) by (simp add: AList.distinct_update list_all_update)
    moreover have "map_of (AList.update name s' kvs) name = Some s'"
      by (simp add: AList.update_conv')
    moreover have "\<forall>n. n \<noteq> name \<longrightarrow> map_of (AList.update name s' kvs) n = map_of kvs n"
      by (simp add: AList.update_conv')
    moreover have "normalize_selector (property (PlainObject (AList.update name s' kvs)) name) = normalize_selector s"
      using s'(1,4) False by (auto simp: AList.update_conv')
    ultimately show ?thesis using s'(1) False by simp
  qed
qed

lemma add_entries_ok:
  shows "\<forall>entry\<in>set es. \<forall>a. selector_over own_name a \<longrightarrow> add_ok omitPath a (snd entry) \<Longrightarrow>
     distinct (map fst es) \<Longrightarrow>
     list_all (\<lambda>entry. own_name (fst entry) \<and> selector_over own_name (snd entry)) es
     \<Longrightarrow> selector_over own_name (PlainObject kvs) \<Longrightarrow>
     \<exists>kvs'. add_entries omitPath (PlainObject kvs) es = Inr (PlainObject kvs')
        \<and> selector_over own_name (PlainObject kvs')
        \<and> (\<forall>n. n \<notin> fst ` set es \<longrightarrow> map_of kvs' n = map_of kvs n)
        \<and> (\<forall>(n, s) \<in> set es.
              includes_selector (property (PlainObject kvs') n) (property (PlainObject kvs) n) = Inr True
            \<and> includes_selector (property (PlainObject kvs') n) s = Inr True)"
proof (induction es arbitrary: kvs)
  case Nil
  then show ?case by simp
next
  case (Cons entry rest)
  obtain name sub where entry: "entry = (name, sub)" by (cases entry)
  let ?acc = "PlainObject kvs"
  from Cons.prems entry have name: "own_name name" and sub: "selector_over own_name sub"
    and fresh: "name \<notin> fst ` set rest" and drest: "distinct (map fst rest)"
    and vrest: "list_all (\<lambda>entry. own_name (fst entry) \<and> selector_over own_name (snd entry)) rest"
    and ihrest: "\<forall>entry\<in>set rest. \<forall>a. selector_over own_name a \<longrightarrow> add_ok omitPath a (snd entry)"
    by auto
  have "selector_over own_name (property ?acc name)"
    using Cons.prems(4) name by (rule own_name_property)
  then have "add_ok omitPath (property ?acc name) sub"
    using Cons.prems(1) entry by simp
  then obtain r where r: "add_selector omitPath (property ?acc name) sub = Inr r"
     "selector_over own_name r"
     "includes_selector r (property ?acc name) = Inr True" "includes_selector r sub = Inr True"
    unfolding add_ok_def by blast
  from set_selector_object[OF name Cons.prems(4) r(2)]
  obtain kvs1 r' where k1: "set_selector omitPath ?acc name r = Inr (PlainObject kvs1)"
      "selector_over own_name (PlainObject kvs1)"
      "\<forall>n. n \<noteq> name \<longrightarrow> map_of kvs1 n = map_of kvs n"
      "normalize_selector (property (PlainObject kvs1) name) = normalize_selector r"
    by blast
  have "\<exists>kvs'. add_entries omitPath (PlainObject kvs1) rest = Inr (PlainObject kvs')
        \<and> selector_over own_name (PlainObject kvs')
        \<and> (\<forall>n. n \<notin> fst ` set rest \<longrightarrow> map_of kvs' n = map_of kvs1 n)
        \<and> (\<forall>(n, s) \<in> set rest.
              includes_selector (property (PlainObject kvs') n) (property (PlainObject kvs1) n) = Inr True
            \<and> includes_selector (property (PlainObject kvs') n) s = Inr True)"
    using Cons.IH[OF ihrest drest vrest k1(2)] by simp
  then obtain kvs' where k': "add_entries omitPath (PlainObject kvs1) rest = Inr (PlainObject kvs')"
        "selector_over own_name (PlainObject kvs')"
        "\<forall>n. n \<notin> fst ` set rest \<longrightarrow> map_of kvs' n = map_of kvs1 n"
        "\<forall>(n, s) \<in> set rest.
              includes_selector (property (PlainObject kvs') n) (property (PlainObject kvs1) n) = Inr True
            \<and> includes_selector (property (PlainObject kvs') n) s = Inr True"
    by blast
  have run: "add_entries omitPath ?acc (entry # rest) = Inr (PlainObject kvs')"
    using entry r(1) k1(1) k'(1) by simp
  have outside: "\<forall>n. n \<notin> fst ` set (entry # rest) \<longrightarrow> map_of kvs' n = map_of kvs n"
    using k'(3) k1(3) entry by auto
  have pname: "property (PlainObject kvs') name = property (PlainObject kvs1) name"
    using k'(3) fresh by simp
  have here: "includes_selector (property (PlainObject kvs') name) (property ?acc name) = Inr True
            \<and> includes_selector (property (PlainObject kvs') name) sub = Inr True"
    using includes_selector_normalize_cong[OF k1(4)] r(3,4) pname by simp
  have there: "\<forall>(n, s) \<in> set rest.
              includes_selector (property (PlainObject kvs') n) (property ?acc n) = Inr True
            \<and> includes_selector (property (PlainObject kvs') n) s = Inr True"
  proof (clarify)
    fix n s assume ns: "(n, s) \<in> set rest"
    then have "n \<noteq> name" using fresh by force
    then have "property (PlainObject kvs1) n = property ?acc n" using k1(3) by simp
    with k'(4) ns show "includes_selector (property (PlainObject kvs') n) (property ?acc n) = Inr True
            \<and> includes_selector (property (PlainObject kvs') n) s = Inr True"
      by (force simp del: property.simps)
  qed
  from run k'(2) outside here there entry show ?case by simp
qed

lemma add_selector_ok:
  "selector_over own_name a \<Longrightarrow> selector_over own_name b \<Longrightarrow> add_ok omitPath a b"
proof (induction b arbitrary: a)
  case Undefined
  then show ?case 
    by (cases a) (auto simp: add_ok_def add_selector.simps includes_selector_same includes_selector_false includes_selector_true)
next
  case (Boolean x)
  then show ?case
    by (cases a; cases x) (auto simp: add_ok_def add_selector.simps includes_selector_same includes_selector_false includes_selector_true)
next
  case (PlainObject es)
  note b = PlainObject.prems(2)
  show ?case
  proof (cases a)
    case (PlainObject kvs)
    have IH: "\<forall>entry\<in>set es. \<forall>a. selector_over own_name a \<longrightarrow> add_ok omitPath a (snd entry)"
    proof (intro ballI allI impI)
      fix entry a assume ns: "entry \<in> set es" and a: "selector_over own_name a"
      from ns b have "selector_over own_name (snd entry)" by (auto simp: list_all_iff)
      moreover have "snd entry \<in> Basic_BNFs.snds entry" by (cases entry) simp
      ultimately show "add_ok omitPath a (snd entry)" using PlainObject.IH ns a by blast
    qed
    from b have d: "distinct (map fst es)"
      and v: "list_all (\<lambda>entry. own_name (fst entry) \<and> selector_over own_name (snd entry)) es"
      by auto
    from PlainObject PlainObject.prems(1) have va: "selector_over own_name (PlainObject kvs)" by simp
    from add_entries_ok[of es omitPath kvs, OF IH d v va]
    obtain kvs' where k: "add_entries omitPath (PlainObject kvs) es = Inr (PlainObject kvs')"
        "selector_over own_name (PlainObject kvs')"
        "\<forall>n. n \<notin> fst ` set es \<longrightarrow> map_of kvs' n = map_of kvs n"
        "\<forall>(n, s) \<in> set es.
              includes_selector (property (PlainObject kvs') n) (property (PlainObject kvs) n) = Inr True
            \<and> includes_selector (property (PlainObject kvs') n) s = Inr True"
      by blast
    have res: "add_selector omitPath a (PlainObject es) = Inr (PlainObject kvs')"
      using PlainObject k(1) by (simp add: add_selector.simps)
    have inc_b: "includes_selector (PlainObject kvs') (PlainObject es) = Inr True"
    proof -
      have "list_all (\<lambda>entry. includes_selector (property (PlainObject kvs') (fst entry)) (snd entry) = Inr True) es"
        unfolding list_all_iff using k(4) by (force simp del: property.simps)
      then show ?thesis by (simp add: includes_selector.simps includes_entries_all)
    qed
    have inc_a: "includes_selector (PlainObject kvs') (PlainObject kvs) = Inr True"
    proof -
      have "list_all (\<lambda>entry. includes_selector (property (PlainObject kvs') (fst entry)) (snd entry) = Inr True) kvs"
        unfolding list_all_iff
      proof
        fix entry assume e: "entry \<in> set kvs"
        obtain n s where ns: "entry = (n, s)" by (cases entry)
        from va e ns have pa: "property (PlainObject kvs) n = s" by simp
        from va e ns have vs: "selector_over own_name s" by (auto simp: list_all_iff)
        show "includes_selector (property (PlainObject kvs') (fst entry)) (snd entry) = Inr True"
        proof (cases "n \<in> fst ` set es")
          case True
          then obtain t where "(n, t) \<in> set es" by force
          with k(4) pa ns show ?thesis by (force simp del: property.simps)
        next
          case False
          with k(3) have "property (PlainObject kvs') n = property (PlainObject kvs) n" by simp
          with pa vs ns show ?thesis by (simp add: includes_selector_same)
        qed
      qed
      then show ?thesis by (simp add: includes_selector.simps includes_entries_all)
    qed
    from res k(2) inc_a inc_b PlainObject show ?thesis by (simp add: add_ok_def)
  next
    case Undefined
    with b show ?thesis
      by (simp add: add_ok_def add_selector.simps includes_selector_same includes_selector_false del: selector_over.simps(3))
  next
    case (Boolean x)
    with b show ?thesis
      by (cases x) (simp_all add: add_ok_def add_selector.simps includes_selector_same includes_selector_false includes_selector_true del: selector_over.simps(3))
  next
    case ObjectPrototype
    with PlainObject.prems show ?thesis by simp
  next
    case NonSelector
    with PlainObject.prems show ?thesis by simp
  qed
next
  case ObjectPrototype
  then show ?case by simp
next
  case NonSelector
  then show ?case by simp
qed

text \<open>
  Claim C7, as the code has it. For all attribute selectors \<open>A\<close> and \<open>B\<close> whose attribute
  names are own names (non-empty, none of the names inherited from \<^verbatim>\<open>Object.prototype\<close>, no
  \<^verbatim>\<open>.\<close> and no \<^verbatim>\<open>[\<close>), \<^verbatim>\<open>add(A, B)\<close> returns a selector \<open>U\<close> such that \<^verbatim>\<open>includes(U, A)\<close> and
  \<^verbatim>\<open>includes(U, B)\<close> both return \<^verbatim>\<open>true\<close>: the union of two selectors contains each of its
  operands. This holds whatever lodash's \<^verbatim>\<open>omit\<close> does with a path.
\<close>

theorem add_selector_includes_operands:
  assumes "own_name_selector A" and "own_name_selector B"
  shows "\<exists>U. add_selector omitPath A B = Inr U
           \<and> includes_selector U A = Inr True \<and> includes_selector U B = Inr True"
  using add_selector_ok [of A B omitPath] assms unfolding add_ok_def own_name_selector_def by blast

theorem add_selector_includes_operands_witness:
  "own_name_selector (PlainObject [(''title'', Boolean True)])
   \<and> own_name_selector (PlainObject [(''director'', PlainObject [(''name'', Boolean True)])])
   \<and> (\<exists>U. add_selector omit_nothing (PlainObject [(''title'', Boolean True)])
                (PlainObject [(''director'', PlainObject [(''name'', Boolean True)])]) = Inr U
          \<and> includes_selector U (PlainObject [(''title'', Boolean True)]) = Inr True
          \<and> includes_selector U
                (PlainObject [(''director'', PlainObject [(''name'', Boolean True)])]) = Inr True)"
  using add_selector_includes_operands
    [of "PlainObject [(''title'', Boolean True)]"
        "PlainObject [(''director'', PlainObject [(''name'', Boolean True)])]"
        omit_nothing]
  by (simp add: own_name_selector_def own_name_def plain_key_def Object_prototype_methods_def)

text \<open>
  The claim as stated fails at \<open>A = {}\<close>, \<open>B = {constructor: true}\<close>: the loop of \<^verbatim>\<open>add\<close> reads
  \<^verbatim>\<open>attributeSelector['constructor']\<close>, finds the function that \<^verbatim>\<open>{}\<close> inherits from
  \<^verbatim>\<open>Object.prototype\<close>, and \<^verbatim>\<open>normalize\<close> throws. Nothing is omitted on the way.
\<close>

theorem add_selector_includes_operands_counterexample:
  "attribute_selector (PlainObject [])
   \<and> attribute_selector (PlainObject [(''constructor'', Boolean True)])
   \<and> add_selector omit_nothing (PlainObject [])
       (PlainObject [(''constructor'', Boolean True)]) = Inl InvalidSelector"
  by (simp add: add_selector.simps Object_prototype_methods_def attribute_selector_def)

subsection \<open>A selector minus itself\<close>

lemma map_of_append_here:
  "k \<notin> fst ` set pre \<Longrightarrow> map_of (pre @ (k, v) # rest) k = Some v"
  by (induction pre) auto

lemma delete_absent: "k \<notin> fst ` set al \<Longrightarrow> AList.delete k al = al"
  by (induction al) auto

lemma delete_append_here:
  "k \<notin> fst ` set pre \<Longrightarrow> k \<notin> fst ` set rest \<Longrightarrow>
     AList.delete k (pre @ (k, v) # rest) = pre @ rest"
  by (induction pre) (auto simp: delete_absent)

lemma update_append_here:
  "k \<notin> fst ` set pre \<Longrightarrow> AList.update k w (pre @ (k, v) # rest) = pre @ (k, w) # rest"
  by (induction pre) auto

lemma set_selector_minus_self:
  assumes "n \<noteq> []" and "n \<in> fst ` set kvs"
  shows "set_selector omitPath (PlainObject kvs) n (minus_self s) =
     Inr (PlainObject (case s of PlainObject es \<Rightarrow> AList.update n (minus_self s) kvs
                                | _ \<Rightarrow> AList.delete n kvs))"
  using assms by (cases s) (auto simp: set_selector_def omit_def minus_self_def)

lemma remove_entries_self:
  "\<forall>entry\<in>set es. remove_selector omitPath (snd entry) (snd entry) = Inr (minus_self (snd entry)) \<Longrightarrow>
   distinct (map fst (pre @ es)) \<Longrightarrow> list_all (\<lambda>entry. fst entry \<noteq> []) es \<Longrightarrow>
   remove_entries omitPath (PlainObject (pre @ es)) es = Inr (PlainObject (pre @ without_leaves es))"
proof (induction es arbitrary: pre)
  case Nil
  then show ?case by simp
next
  case (Cons entry rest)
  obtain name sub where entry: "entry = (name, sub)" by (cases entry)
  let ?acc = "PlainObject (pre @ (name, sub) # rest)"
  from Cons.prems entry have name: "name \<noteq> []"
    and fresh: "name \<notin> fst ` set rest" and new: "name \<notin> fst ` set pre"
    and vrest: "list_all (\<lambda>entry. fst entry \<noteq> []) rest"
    and ihrest: "\<forall>entry\<in>set rest. remove_selector omitPath (snd entry) (snd entry) = Inr (minus_self (snd entry))"
    and sub: "remove_selector omitPath sub sub = Inr (minus_self sub)"
    by auto
  have "map_of (pre @ (name, sub) # rest) name = Some sub"
    using new by (rule map_of_append_here)
  then have here: "property ?acc name = sub"
    by (simp only: property.simps option.case)
  have own: "name \<in> fst ` set (pre @ (name, sub) # rest)" by simp
  show ?case
  proof (cases "\<exists>es. sub = PlainObject es")
    case True
    then obtain es where es: "sub = PlainObject es" by blast
    have step: "set_selector omitPath ?acc name (minus_self sub)
                  = Inr (PlainObject ((pre @ [(name, minus_self sub)]) @ rest))"
      using set_selector_minus_self[OF name own, of omitPath sub] es new
      by (simp add: update_append_here)
    have d: "distinct (map fst ((pre @ [(name, minus_self sub)]) @ rest))"
      using Cons.prems(2) entry by auto
    have "remove_entries omitPath (PlainObject ((pre @ [(name, minus_self sub)]) @ rest)) rest
            = Inr (PlainObject ((pre @ [(name, minus_self sub)]) @ without_leaves rest))"
      using Cons.IH[OF ihrest d vrest] .
    with step here sub entry es show ?thesis by (simp add: minus_self_def)
  next
    case False
    have step: "set_selector omitPath ?acc name (minus_self sub) = Inr (PlainObject (pre @ rest))"
      using set_selector_minus_self[OF name own, of omitPath sub] False new fresh
      by (cases sub) (simp_all add: delete_append_here)
    have d: "distinct (map fst (pre @ rest))"
      using Cons.prems(2) entry by auto
    have "remove_entries omitPath (PlainObject (pre @ rest)) rest
            = Inr (PlainObject (pre @ without_leaves rest))"
      using Cons.IH[OF ihrest d vrest] .
    moreover have "without_leaves ((name, sub) # rest) = without_leaves rest"
      using False by (cases sub) simp_all
    ultimately show ?thesis using step here sub entry by simp
  qed
qed

lemma remove_selector_minus_self:
  "selector_over (\<lambda>name. name \<noteq> []) a \<Longrightarrow> remove_selector omitPath a a = Inr (minus_self a)"
proof (induction a)
  case (PlainObject es)
  have ih: "\<forall>entry\<in>set es. remove_selector omitPath (snd entry) (snd entry) = Inr (minus_self (snd entry))"
  proof
    fix entry assume e: "entry \<in> set es"
    with PlainObject.prems have "selector_over (\<lambda>name. name \<noteq> []) (snd entry)"
      by (auto simp: list_all_iff)
    moreover have "snd entry \<in> Basic_BNFs.snds entry" by (cases entry) simp
    ultimately show "remove_selector omitPath (snd entry) (snd entry) = Inr (minus_self (snd entry))"
      using PlainObject.IH e by blast
  qed
  from PlainObject.prems have d: "distinct (map fst ([] @ es))"
    and v: "list_all (\<lambda>entry. fst entry \<noteq> []) es" by (auto simp: list_all_iff)
  from remove_entries_self[OF ih d v]
  show ?case by (simp add: remove_selector.simps minus_self_def)
qed (auto simp: remove_selector.simps minus_self_def)

text \<open>
  Claim C4, as the code has it. \<^verbatim>\<open>remove(A, A)\<close> returns without an error on every attribute
  selector \<open>A\<close>, not for \<open>A = true\<close> either: \<^verbatim>\<open>remove\<close> returns \<^verbatim>\<open>false\<close> as soon as its second
  argument is \<^verbatim>\<open>true\<close>, before the test that throws. It yields \<^verbatim>\<open>false\<close> when \<open>A\<close> is a boolean
  (or \<^verbatim>\<open>undefined\<close>). When \<open>A\<close> is a mapping it yields a mapping, not the value \<^verbatim>\<open>false\<close>: \<open>A\<close>
  without its leaves, that is with every entry whose value is a boolean or \<^verbatim>\<open>undefined\<close>
  removed and every entry whose value is a mapping kept with that mapping treated the same
  way (\<^verbatim>\<open>{}\<close> for \<^verbatim>\<open>{title: true}\<close>, \<^verbatim>\<open>{director: {}}\<close> for
  \<^verbatim>\<open>{title: true, director: {name: true}}\<close>).
\<close>

theorem remove_selector_self:
  assumes "attribute_selector A"
  shows "remove_selector omitPath A A =
           Inr (if A = Undefined \<or> is_boolean A then Boolean False
                else PlainObject (without_leaves (Object_entries A)))"
proof -
  from assms have "remove_selector omitPath A A = Inr (minus_self A)"
    unfolding attribute_selector_def by (rule remove_selector_minus_self)
  with assms show ?thesis by (cases A) (simp_all add: minus_self_def attribute_selector_def)
qed

theorem remove_selector_self_witness:
  "attribute_selector
     (PlainObject [(''title'', Boolean True), (''director'', PlainObject [(''name'', Boolean True)])])
   \<and> remove_selector omit_nothing
     (PlainObject [(''title'', Boolean True), (''director'', PlainObject [(''name'', Boolean True)])])
     (PlainObject [(''title'', Boolean True), (''director'', PlainObject [(''name'', Boolean True)])])
     = Inr (PlainObject [(''director'', PlainObject [])])"
  using remove_selector_self
    [of "PlainObject [(''title'', Boolean True), (''director'', PlainObject [(''name'', Boolean True)])]"
        omit_nothing]
  by (simp add: attribute_selector_def)

text \<open>
  The claim as stated fails at \<open>A = true\<close>, where \<^verbatim>\<open>remove(true, true)\<close> returns \<^verbatim>\<open>false\<close> and
  throws nothing, and at \<open>A = {title: true}\<close>, where the result is \<^verbatim>\<open>{}\<close> and not \<^verbatim>\<open>false\<close>.
\<close>

theorem remove_selector_self_counterexample:
  "remove_selector omit_nothing (Boolean True) (Boolean True) = Inr (Boolean False)
   \<and> remove_selector omit_nothing (PlainObject [(''title'', Boolean True)])
         (PlainObject [(''title'', Boolean True)]) = Inr (PlainObject [])
   \<and> Inr (PlainObject []) \<noteq> (Inr (Boolean False) :: error + jsvalue)"
  by (simp add: remove_selector.simps set_selector_def omit_def plain_key_def)
section \<open>Properties of the component client\<close>

subsection \<open>The calls a send makes\<close>

lemma receives_append [simp]: "receives (xs @ ys) = receives xs @ receives ys"
  by (induction xs rule: receives.induct) auto

lemma receives_Deserialize [simp]:
  "receives (map (\<lambda>(root, value). Deserialize root value) jobs) = []"
  by (induction jobs) auto

lemma settleEach_array:
  "settleEach env operations index (JArray results) st =
     ((map settlement_of (jobs_results env (batch_jobs operations index results) (world st)), None),
      \<lparr>world = jobs_world env (batch_jobs operations index results) (world st),
       calls = calls st @ map (\<lambda>(root, value). Deserialize root value)
                            (batch_jobs operations index results)\<rparr>)"
proof (induction operations arbitrary: index st)
  case Nil
  then show ?case by simp
next
  case (Cons operation rest)
  show ?case
    by (simp add: Cons.IH call_deserialize_def element_or_undefined_def
             split: prod.splits)
qed

lemma settleEach_receives:
  "receives (calls (snd (settleEach env operations index result st))) = receives (calls st)"
proof (induction operations arbitrary: index st)
  case Nil
  show ?case by simp
next
  case (Cons operation rest)
  show ?case
  proof (cases "element_at result index")
    case (Inl e)
    then show ?thesis by simp
  next
    case (Inr serializedResult)
    obtain r st1 where d: "call_deserialize env (rootComponent (snd (params operation)))
         serializedResult st = (r, st1)" by (cases "call_deserialize env (rootComponent (snd (params operation)))
         serializedResult st")
    then have c: "receives (calls st1) = receives (calls st)"
      by (auto simp: call_deserialize_def split: prod.splits)
    from Cons.IH[of "Suc index" st1] Inr d c show ?thesis
      by (simp add: case_prod_beta)
  qed
qed

lemma sendOne_unfold:
  "sendOne env client query options st =
     (case call_receive env (request_of env client (world st) query) st of
        (Inl e, st1) \<Rightarrow> (Inl e, st1)
      | (Inr serializedResponse, st1) \<Rightarrow>
          (case call_deserialize env (rootComponent options)
                  (response_components serializedResponse) st1 of
             (Inl e, st2) \<Rightarrow> (Inl e, st2)
           | (Inr _, st2) \<Rightarrow>
               call_deserialize env (rootComponent options)
                 (response_result serializedResponse) st2))"
  by (simp add: sendOne_def request_of_def case_prod_beta)

lemma sendMany_unfold:
  "sendMany env client operations st =
     (if length operations = 1 then
        (case sendOne env client (fst (params (hd operations)))
                (snd (params (hd operations))) st of
           (r, st1) \<Rightarrow> (([settlement_of r], None), st1))
      else
        (case call_receive env (request_of env client (world st) (batch_query operations)) st of
           (Inl e, st1) \<Rightarrow> (([], Some e), st1)
         | (Inr serializedResponse, st1) \<Rightarrow>
             (case operations of
                [] \<Rightarrow> (([], Some TypeError), st1)
              | first # _ \<Rightarrow>
                  (case call_deserialize env (rootComponent (snd (params first)))
                          (response_components serializedResponse) st1 of
                     (Inl e, st2) \<Rightarrow> (([], Some e), st2)
                   | (Inr _, st2) \<Rightarrow>
                       settleEach env operations 0
                         (response_result serializedResponse) st2))))"
  by (simp add: sendMany_def request_of_def batch_query_def case_prod_beta)

lemma sendMany_batch_failed_receive:
  assumes "length operations \<noteq> 1"
    and "receive env (request_of env client (world st) (batch_query operations)) (world st) = (Inl e, w1)"
  shows "sendMany env client operations st =
           (([], Some e),
            \<lparr>world = w1,
             calls = calls st @ [Receive (request_of env client (world st) (batch_query operations))]\<rparr>)"
  using assms by (simp add: sendMany_unfold call_receive_def)

lemma sendMany_batch_failed_components:
  assumes "operations = first # second # rest"
    and "receive env (request_of env client (world st) (batch_query operations)) (world st)
           = (Inr serializedResponse, w1)"
    and "deserialize env (rootComponent (snd (params first)))
           (response_components serializedResponse) w1 = (Inl e, w2)"
  shows "sendMany env client operations st =
           (([], Some e),
            \<lparr>world = w2,
             calls = calls st @
               [Receive (request_of env client (world st) (batch_query operations)),
                Deserialize (rootComponent (snd (params first)))
                  (response_components serializedResponse)]\<rparr>)"
  using assms by (simp add: sendMany_unfold call_receive_def call_deserialize_def)

lemma sendMany_batch_settled:
  assumes "operations = first # second # rest"
    and "receive env (request_of env client (world st) (batch_query operations)) (world st)
           = (Inr serializedResponse, w1)"
    and "deserialize env (rootComponent (snd (params first)))
           (response_components serializedResponse) w1 = (Inr v, w2)"
    and "response_result serializedResponse = JArray results"
  shows "sendMany env client operations st =
           ((map settlement_of (jobs_results env (batch_jobs operations 0 results) w2), None),
            \<lparr>world = jobs_world env (batch_jobs operations 0 results) w2,
             calls = calls st @
               [Receive (request_of env client (world st) (batch_query operations)),
                Deserialize (rootComponent (snd (params first)))
                  (response_components serializedResponse)]
               @ map (\<lambda>(root, value). Deserialize root value)
                   (batch_jobs operations 0 results)\<rparr>)"
  using assms
  by (simp add: sendMany_unfold call_receive_def call_deserialize_def settleEach_array
           del: settleEach.simps batch_jobs.simps)

lemma sendMany_batch_receives:
  assumes "length operations \<noteq> 1"
  shows "receives (calls (snd (sendMany env client operations st))) =
           receives (calls st) @ [request_of env client (world st) (batch_query operations)]"
proof -
  let ?req = "request_of env client (world st) (batch_query operations)"
  obtain r w1 where rc: "receive env ?req (world st) = (r, w1)" by (cases "receive env ?req (world st)")
  let ?st1 = "\<lparr>world = w1, calls = calls st @ [Receive ?req]\<rparr>"
  show ?thesis
  proof (cases r)
    case (Inl e)
    with rc assms show ?thesis by (simp add: sendMany_batch_failed_receive)
  next
    case (Inr resp)
    show ?thesis
    proof (cases operations)
      case Nil
      with rc Inr show ?thesis by (simp add: sendMany_unfold call_receive_def)
    next
      case (Cons first rest)
      let ?root = "rootComponent (snd (params first))"
      obtain d w2 where dc: "deserialize env ?root (response_components resp) w1 = (d, w2)"
        by (cases "deserialize env ?root (response_components resp) w1")
      let ?st2 = "\<lparr>world = w2, calls = calls st @ [Receive ?req] @ [Deserialize ?root (response_components resp)]\<rparr>"
      show ?thesis
      proof (cases d)
        case (Inl e)
        with rc Inr Cons dc assms show ?thesis
          by (simp add: sendMany_unfold call_receive_def call_deserialize_def)
      next
        case (Inr v)
        have "sendMany env client operations st = settleEach env operations 0 (response_result resp) ?st2"
          using rc \<open>r = Inr resp\<close> Cons dc Inr assms
          by (simp add: sendMany_unfold call_receive_def call_deserialize_def del: settleEach.simps)
        then show ?thesis by (simp add: settleEach_receives del: settleEach.simps)
      qed
    qed
  qed
qed

lemma sendOne_receives:
  "receives (calls (snd (sendOne env client query options st))) =
     receives (calls st) @ [request_of env client (world st) query]"
  by (auto simp: sendOne_unfold call_receive_def call_deserialize_def split: prod.splits sum.splits)

lemma sendOne_sendBatcher [simp]:
  "sendOne env (client\<lparr>sendBatcher := b\<rparr>) query options st = sendOne env client query options st"
  by (simp add: sendOne_def)

lemma request_of_sendBatcher [simp]:
  "request_of env (client\<lparr>sendBatcher := b\<rparr>) w query = request_of env client w query"
  by (simp add: request_of_def)

lemma sendMany_sendBatcher [simp]:
  "sendMany env (client\<lparr>sendBatcher := b\<rparr>) operations st = sendMany env client operations st"
  by (simp add: sendMany_def)

lemma jobs_results_length [simp]: "length (jobs_results env jobs w) = length jobs"
  by (induction jobs arbitrary: w) (auto split: prod.splits)

lemma batch_jobs_length [simp]: "length (batch_jobs operations index results) = length operations"
  by (induction operations arbitrary: index) auto

lemma batch_jobs_nth:
  "j < length operations \<Longrightarrow>
     batch_jobs operations index results ! j =
       (rootComponent (snd (params (operations ! j))), element_or_undefined results (index + j))"
  by (induction operations arbitrary: index j) (auto simp: nth_Cons split: nat.splits)

lemma jobs_results_nth:
  "j < length jobs \<Longrightarrow>
     jobs_results env jobs w ! j =
       fst (deserialize env (fst (jobs ! j)) (snd (jobs ! j)) (jobs_world env (take j jobs) w))"
proof (induction jobs arbitrary: w j)
  case Nil
  then show ?case by simp
next
  case (Cons job jobs)
  obtain root v where job: "job = (root, v)" by (cases job)
  show ?case
  proof (cases j)
    case 0
    with job show ?thesis by (simp split: prod.splits)
  next
    case (Suc k)
    with Cons.prems have "k < length jobs" by simp
    from Cons.IH[OF this] Suc job show ?thesis by (simp split: prod.splits)
  qed
qed

subsection \<open>The closure of the component dependencies\<close>

lemma map_filter_snoc:
  "List.map_filter f (xs @ [x]) = List.map_filter f xs @ (case f x of None \<Rightarrow> [] | Some y \<Rightarrow> [y])"
  by (induction xs) (auto simp: List.map_filter_simps split: option.splits)

lemma serialized_entries_snoc:
  "serialized_entries env w (classes @ [c]) =
     (case fst (serializeComponent env attributeFilter w c) of
        None \<Rightarrow> serialized_entries env w classes
      | Some s \<Rightarrow> Some ((case serialized_entries env w classes of None \<Rightarrow> [] | Some l \<Rightarrow> l) @ [s]))"
  by (auto simp: serialized_entries_def map_filter_snoc split: option.splits list.splits)

lemma serializeEach_tracked:
  "tracked env w st \<Longrightarrow> serializeEach env w cds additional st = (additional', st') \<Longrightarrow>
     tracked env w st'"
proof (induction cds arbitrary: additional st)
  case Nil
  then show ?case by simp
next
  case (Cons c rest)
  show ?case
  proof (cases "c \<in> set (handledComponentDependencies st)")
    case True
    with Cons show ?thesis by simp
  next
    case False
    obtain s registered where sc: "serializeComponent env attributeFilter w c = (s, registered)"
      by (cases "serializeComponent env attributeFilter w c")
    let ?st1 = "\<lparr>handledComponentDependencies = Set_add c (handledComponentDependencies st),
                serializedComponentDependencies =
                  (case s of None \<Rightarrow> serializedComponentDependencies st
                   | Some s \<Rightarrow> Some ((case serializedComponentDependencies st of
                                None \<Rightarrow> [] | Some l \<Rightarrow> l) @ [s]))\<rparr>"
    have "tracked env w ?st1"
      using Cons.prems(1) False sc
      by (auto simp: tracked_def Set_add_def serialized_entries_snoc split: option.splits)
    moreover have "serializeEach env w rest (fold Set_add registered additional) ?st1 = (additional', st')"
      using Cons.prems(2) False sc by simp
    ultimately show ?thesis by (rule Cons.IH)
  qed
qed

lemma set_fold_Set_add: "set (fold Set_add xs s) = set s \<union> set xs"
  by (induction xs arbitrary: s) (auto simp: Set_add_def)

lemma serializeEach_additional:
  "serializeEach env w cds additional st = (additional', st') \<Longrightarrow>
     set additional' = set additional \<union>
        (\<Union>c \<in> set cds - set (handledComponentDependencies st).
            set (snd (serializeComponent env attributeFilter w c)))"
proof (induction cds arbitrary: additional st)
  case Nil
  then show ?case by simp
next
  case (Cons c rest)
  show ?case
  proof (cases "c \<in> set (handledComponentDependencies st)")
    case True
    with Cons.prems have "serializeEach env w rest additional st = (additional', st')" by simp
    from Cons.IH[OF this] True show ?thesis by auto
  next
    case False
    obtain s registered where sc: "serializeComponent env attributeFilter w c = (s, registered)"
      by (cases "serializeComponent env attributeFilter w c")
    let ?st1 = "\<lparr>handledComponentDependencies = Set_add c (handledComponentDependencies st),
                serializedComponentDependencies =
                  (case s of None \<Rightarrow> serializedComponentDependencies st
                   | Some s \<Rightarrow> Some ((case serializedComponentDependencies st of
                                None \<Rightarrow> [] | Some l \<Rightarrow> l) @ [s]))\<rparr>"
    have "serializeEach env w rest (fold Set_add registered additional) ?st1 = (additional', st')"
      using Cons.prems False sc by simp
    from Cons.IH[OF this] 
    have "set additional' = set additional \<union> set registered \<union>
        (\<Union>c \<in> set rest - (insert c (set (handledComponentDependencies st))).
            set (snd (serializeComponent env attributeFilter w c)))"
      using False by (simp add: set_fold_Set_add Set_add_def)
    with False sc show ?thesis by auto
  qed
qed

lemma closed_contains_reachable:
  assumes "I \<subseteq> H" and "\<forall>h \<in> H. \<forall>d. (h, d) \<in> G \<longrightarrow> d \<in> H"
  shows "G\<^sup>* `` I \<subseteq> H"
proof
  fix d assume "d \<in> G\<^sup>* `` I"
  then obtain c where c: "c \<in> I" "(c, d) \<in> G\<^sup>*" by auto
  from c(2) show "d \<in> H"
  proof (induction rule: rtrancl_induct)
    case base
    with c(1) assms(1) show ?case by auto
  next
    case (step y z)
    with assms(2) show ?case by blast
  qed
qed

lemma serializeComponentDependencies_closure:
  assumes "tracked env w st"
    and "set (handledComponentDependencies st) \<union> set cds \<subseteq> (dependency_graph env w)\<^sup>* `` I"
    and "I \<subseteq> set (handledComponentDependencies st) \<union> set cds"
    and "\<forall>h \<in> set (handledComponentDependencies st).
           set (snd (serializeComponent env attributeFilter w h))
             \<subseteq> set (handledComponentDependencies st) \<union> set cds"
  shows "tracked env w (serializeComponentDependencies env w cds st)
       \<and> set (handledComponentDependencies (serializeComponentDependencies env w cds st))
           = (dependency_graph env w)\<^sup>* `` I"
  using assms
proof (induction env w cds st rule: serializeComponentDependencies.induct)
  case (1 env w cds st)
  let ?G = "dependency_graph env w"
  let ?H = "set (handledComponentDependencies st)"
  show ?case
  proof (cases "cds = []")
    case True
    have "?G\<^sup>* `` I \<subseteq> ?H"
    proof (rule closed_contains_reachable)
      show "I \<subseteq> ?H" using "1.prems"(3) True by simp
      show "\<forall>h\<in>?H. \<forall>d. (h, d) \<in> ?G \<longrightarrow> d \<in> ?H"
        using "1.prems"(4) True by (auto simp: dependency_graph_def)
    qed
    with "1.prems"(1,2) True show ?thesis
      by (auto simp: serializeComponentDependencies.simps[of env w "[]"])
  next
    case False
    obtain additional st1 where run: "serializeEach env w cds [] st = (additional, st1)"
      by (cases "serializeEach env w cds [] st")
    have t1: "tracked env w st1" using "1.prems"(1) run by (rule serializeEach_tracked)
    have h1: "set (handledComponentDependencies st1) = ?H \<union> set cds"
      using run by (rule serializeEach_handled)
    have a1: "set additional = (\<Union>c \<in> set cds - ?H. set (snd (serializeComponent env attributeFilter w c)))"
      using serializeEach_additional[OF run] by simp
    have sound: "set (handledComponentDependencies st1) \<union> set additional \<subseteq> ?G\<^sup>* `` I"
    proof -
      have "set additional \<subseteq> ?G\<^sup>* `` I"
      proof
        fix d assume "d \<in> set additional"
        with a1 obtain c where c: "c \<in> set cds" "d \<in> set (snd (serializeComponent env attributeFilter w c))"
          by auto
        then have "(c, d) \<in> ?G" by (simp add: dependency_graph_def)
        moreover from c(1) "1.prems"(2) have "c \<in> ?G\<^sup>* `` I" by auto
        ultimately show "d \<in> ?G\<^sup>* `` I" by (auto intro: rtrancl_into_rtrancl)
      qed
      with h1 "1.prems"(2) show ?thesis by auto
    qed
    have start: "I \<subseteq> set (handledComponentDependencies st1) \<union> set additional"
      using h1 "1.prems"(3) by auto
    have closed: "\<forall>h \<in> set (handledComponentDependencies st1).
           set (snd (serializeComponent env attributeFilter w h))
             \<subseteq> set (handledComponentDependencies st1) \<union> set additional"
    proof
      fix h assume "h \<in> set (handledComponentDependencies st1)"
      with h1 have "h \<in> ?H \<or> h \<in> set cds - ?H" by auto
      then show "set (snd (serializeComponent env attributeFilter w h))
             \<subseteq> set (handledComponentDependencies st1) \<union> set additional"
      proof
        assume "h \<in> ?H"
        with "1.prems"(4) h1 show ?thesis by auto
      next
        assume "h \<in> set cds - ?H"
        with a1 show ?thesis by auto
      qed
    qed
    from "1.IH"[OF False run[symmetric] t1 sound start closed]
    show ?thesis
      using False run by (simp add: serializeComponentDependencies.simps[of env w cds])
  qed
qed

lemma serializeQuery_closure:
  "\<exists>order. distinct order
     \<and> set order = (dependency_graph env w)\<^sup>* `` set (snd (serialize env attributeFilter w query))
     \<and> snd (serializeQuery env w query) = serialized_entries env w order"
proof -
  obtain serializedQuery registered where s: "serialize env attributeFilter w query = (serializedQuery, registered)"
    by (cases "serialize env attributeFilter w query")
  let ?st0 = "\<lparr>handledComponentDependencies = [], serializedComponentDependencies = None\<rparr>"
  let ?st = "serializeComponentDependencies env w (fold Set_add registered []) ?st0"
  have "tracked env w ?st \<and> set (handledComponentDependencies ?st) = (dependency_graph env w)\<^sup>* `` set registered"
    by (rule serializeComponentDependencies_closure)
       (auto simp: tracked_def serialized_entries_def List.map_filter_simps set_fold_Set_add)
  then show ?thesis
    using s by (intro exI[of _ "handledComponentDependencies ?st"])
               (simp add: serializeQuery_def tracked_def)
qed

lemma serializeEach_receive [simp]:
  "serializeEach (env\<lparr>receive := r\<rparr>) w cds additional st = serializeEach env w cds additional st"
  by (induction cds arbitrary: additional st) (auto split: prod.splits)

lemma serializeComponentDependencies_receive [simp]:
  "serializeComponentDependencies (env\<lparr>receive := r\<rparr>) w cds st =
     serializeComponentDependencies env w cds st"
proof (induction env w cds st rule: serializeComponentDependencies.induct)
  case (1 env w cds st)
  show ?case
  proof (cases "cds = []")
    case True
    then show ?thesis by (simp add: serializeComponentDependencies.simps)
  next
    case False
    obtain additional st1 where run: "serializeEach env w cds [] st = (additional, st1)"
      by (cases "serializeEach env w cds [] st")
    from "1.IH"[OF False run[symmetric]] False run show ?thesis
      by (simp add: serializeComponentDependencies.simps[of _ w cds st])
  qed
qed

lemma serializeQuery_receive [simp]:
  "serializeQuery (env\<lparr>receive := r\<rparr>) w query = serializeQuery env w query"
  by (simp add: serializeQuery_def)

lemma createMethodProxy_batched:
  assumes "ensureComponentClass env this = Inr c" and "sendBatcher client = Some operations"
  shows "createMethodProxy env name this args (client, st) =
           (Pending (length operations),
            client\<lparr>sendBatcher := Some (operations @
               [\<lparr>params = (methodProxy_query name this args, \<lparr>rootComponent = Some c\<rparr>)\<rparr>])\<rparr>,
            st)"
  using assms by (simp add: createMethodProxy_def send_def batch_def)

lemma three_calls_in_one_tick_unfold:
  assumes "ensureComponentClass env this1 = Inr c1"
    and "ensureComponentClass env this2 = Inr c2"
    and "ensureComponentClass env this3 = Inr c3"
  shows "three_calls_in_one_tick env version (name1, this1, args1) (name2, this2, args2)
           (name3, this3, args3) st =
         (case sendMany env (ComponentClient version True)
                 [\<lparr>params = (methodProxy_query name1 this1 args1, \<lparr>rootComponent = Some c1\<rparr>)\<rparr>,
                  \<lparr>params = (methodProxy_query name2 this2 args2, \<lparr>rootComponent = Some c2\<rparr>)\<rparr>,
                  \<lparr>params = (methodProxy_query name3 this3 args3, \<lparr>rootComponent = Some c3\<rparr>)\<rparr>]
                 st of
            ((settlements, thrown), st') \<Rightarrow>
              ([Pending 0, Pending 1, Pending 2],
               settlements @ (case thrown of None \<Rightarrow> []
                              | Some e \<Rightarrow> replicate (3 - length settlements) (Rejected e)),
               st'))"
proof -
  let ?ops = "[\<lparr>params = (methodProxy_query name1 this1 args1, \<lparr>rootComponent = Some c1\<rparr>)\<rparr>,
               \<lparr>params = (methodProxy_query name2 this2 args2, \<lparr>rootComponent = Some c2\<rparr>)\<rparr>,
               \<lparr>params = (methodProxy_query name3 this3 args3, \<lparr>rootComponent = Some c3\<rparr>)\<rparr>]"
  have e: "sendMany env \<lparr>client_version = version, sendBatcher = Some ?ops\<rparr> ?ops st =
           sendMany env \<lparr>client_version = version, sendBatcher = Some []\<rparr> ?ops st"
    by (simp add: sendMany_def sendOne_def)
  show ?thesis
    using assms
    by (simp add: three_calls_in_one_tick_def createMethodProxy_batched ComponentClient_def
          flush_def e case_prod_beta numeral_3_eq_3 split: option.splits)
qed

section \<open>The claims about the component client\<close>

subsection \<open>The attribute filter\<close>


lemma serializeAttributes_filtered:
  "\<forall>entry\<in>set attrs. attributeFilter' this (fst entry) = Inr (passes (fst entry)) \<Longrightarrow>
     serializeAttributes attributeFilter' this attrs =
       Inr (map (\<lambda>(attribute, serializedValue). (getName attribute, serializedValue))
              (filter (\<lambda>(attribute, serializedValue). passes attribute) attrs))"
  by (induction attrs) auto

lemma serializeAttributes_default:
  "serializeAttributes (\<lambda>this attribute. Inr True) this attrs =
     Inr (map (\<lambda>(attribute, serializedValue). (getName attribute, serializedValue)) attrs)"
  using serializeAttributes_filtered[of attrs "\<lambda>this attribute. Inr True" this "\<lambda>attribute. True"]
  by simp



subsection \<open>A batch of one\<close>

text \<open>
  Claim C8. When the batch holds exactly one operation, \<^verbatim>\<open>_sendMany\<close> does what
  \<^verbatim>\<open>_sendOne\<close> does with the query and the options of that operation: the same calls in
  the same world, the operation resolved with the value \<^verbatim>\<open>_sendOne\<close> returns or rejected
  with the error it throws. The one request sent is the request of the query itself, with
  no \<^verbatim>\<open>'||'\<close> around it. The same holds of a flush of the batcher with one operation
  pending.
\<close>

theorem single_operation_batch_is_sendOne:
  "sendMany env client [operation] st =
     (case sendOne env client (fst (params operation)) (snd (params operation)) st of
        (r, st') \<Rightarrow> (([settlement_of r], None), st'))
   \<and> receives (calls (snd (sendMany env client [operation] st))) =
       receives (calls st) @ [request_of env client (world st) (fst (params operation))]
   \<and> flush env (client\<lparr>sendBatcher := Some [operation]\<rparr>, st) =
       (case sendOne env client (fst (params operation)) (snd (params operation)) st of
          (r, st') \<Rightarrow> ([settlement_of r], client\<lparr>sendBatcher := Some []\<rparr>, st'))"
proof -
  have one: "sendMany env client [operation] st =
     (case sendOne env client (fst (params operation)) (snd (params operation)) st of
        (r, st') \<Rightarrow> (([settlement_of r], None), st'))"
    by (simp add: sendMany_def)
  have two: "receives (calls (snd (sendMany env client [operation] st))) =
       receives (calls st) @ [request_of env client (world st) (fst (params operation))]"
    using sendOne_receives[of env client "fst (params operation)" "snd (params operation)" st]
    by (simp add: one case_prod_beta)
  have three: "flush env (client\<lparr>sendBatcher := Some [operation]\<rparr>, st) =
       (case sendOne env client (fst (params operation)) (snd (params operation)) st of
          (r, st') \<Rightarrow> ([settlement_of r], client\<lparr>sendBatcher := Some []\<rparr>, st'))"
    by (simp add: flush_def one case_prod_beta)
  from one two three show ?thesis by blast
qed

subsection \<open>The shared components of a batch\<close>

text \<open>
  Claim C9. In a batch of two or more operations that the server answers, the calls made
  are: the one \<^verbatim>\<open>receive\<close>; then one \<^verbatim>\<open>deserialize\<close> of the components of the response,
  against the root component of the first operation; then, when that has not thrown, one
  \<^verbatim>\<open>deserialize\<close> for each operation, of the result at its index against its own root
  component. The root components of the later operations are used for their own results
  only.
\<close>

theorem batch_components_deserialized_once:
  assumes "operations = first # second # rest"
    and "receive env (request_of env client (world st) (batch_query operations)) (world st)
           = (Inr serializedResponse, w1)"
    and "response_result serializedResponse = JArray results"
  shows "calls (snd (sendMany env client operations st)) =
           calls st @
           [Receive (request_of env client (world st) (batch_query operations)),
            Deserialize (rootComponent (snd (params first)))
              (response_components serializedResponse)] @
           (case fst (deserialize env (rootComponent (snd (params first)))
                        (response_components serializedResponse) w1) of
              Inl e \<Rightarrow> []
            | Inr v \<Rightarrow> map (\<lambda>(root, value). Deserialize root value)
                        (batch_jobs operations 0 results))"
proof -
  obtain d w2 where dc: "deserialize env (rootComponent (snd (params first)))
                        (response_components serializedResponse) w1 = (d, w2)"
    by (cases "deserialize env (rootComponent (snd (params first)))
                        (response_components serializedResponse) w1")
  show ?thesis
  proof (cases d)
    case (Inl e)
    with dc sendMany_batch_failed_components[OF assms(1,2)] show ?thesis by simp
  next
    case (Inr v)
    with dc sendMany_batch_settled[OF assms(1,2) _ assms(3)] show ?thesis by simp
  qed
qed

text \<open>The calls of the small system on a batch of three.\<close>

theorem batch_components_deserialized_once_witness:
  "calls (snd (sendMany example (ComponentClient None True) example_operations
                 \<lparr>world = 0, calls = []\<rparr>)) =
     [Receive (request_of example (ComponentClient None True) 0 (batch_query example_operations)),
      Deserialize (Some (CHR ''A'')) JUndefined,
      Deserialize (Some (CHR ''A'')) (JString ''first''),
      Deserialize (Some (CHR ''B'')) (JObject [(''__error'', JString ''boom'')]),
      Deserialize (Some (CHR ''C'')) (JString ''third'')]"
  using batch_components_deserialized_once
    [of example_operations "hd example_operations" "hd (tl example_operations)"
        "tl (tl example_operations)" example "ComponentClient None True"
        "\<lparr>world = 0, calls = []\<rparr>" example_response "Suc 0"
        "[JString ''first'', JObject [(''__error'', JString ''boom'')], JString ''third'']"]
  by (simp add: example_operations_def example_def example_response_def
        element_or_undefined_def)

subsection \<open>Failures in a batch\<close>

text \<open>
  Claim C3, as the code has it. Take a batch of two or more operations. When the
  \<^verbatim>\<open>receive\<close> call fails, \<^verbatim>\<open>_sendMany\<close> throws that error and settles no operation. When
  \<^verbatim>\<open>receive\<close> succeeds and the deserialization of the shared components throws,
  \<^verbatim>\<open>_sendMany\<close> throws that error and settles no operation either: this failure is
  batch-wide too. When \<^verbatim>\<open>receive\<close> succeeds with an array of results and the shared
  components deserialize, every operation is settled and nothing is thrown: the operation
  at index \<open>j\<close> is rejected with the error that the deserialization of the result at
  index \<open>j\<close> throws, or resolved with the value it returns, whatever happened at the
  other indexes.
\<close>

theorem batch_partial_failure:
  assumes "operations = first # second # rest"
  shows "(receive env (request_of env client (world st) (batch_query operations)) (world st)
            = (Inl e, w1)
          \<longrightarrow> fst (sendMany env client operations st) = ([], Some e))
       \<and> (receive env (request_of env client (world st) (batch_query operations)) (world st)
            = (Inr serializedResponse, w1)
          \<and> deserialize env (rootComponent (snd (params first)))
              (response_components serializedResponse) w1 = (Inl e, w2)
          \<longrightarrow> fst (sendMany env client operations st) = ([], Some e))
       \<and> (receive env (request_of env client (world st) (batch_query operations)) (world st)
            = (Inr serializedResponse, w1)
          \<and> deserialize env (rootComponent (snd (params first)))
              (response_components serializedResponse) w1 = (Inr v, w2)
          \<and> response_result serializedResponse = JArray results
          \<longrightarrow> snd (fst (sendMany env client operations st)) = None
            \<and> length (fst (fst (sendMany env client operations st))) = length operations
            \<and> (\<forall>j < length operations.
                  fst (fst (sendMany env client operations st)) ! j =
                    settlement_of
                      (fst (deserialize env (rootComponent (snd (params (operations ! j))))
                              (element_or_undefined results j)
                              (jobs_world env (take j (batch_jobs operations 0 results)) w2)))))"
proof (intro conjI impI)
  assume "receive env (request_of env client (world st) (batch_query operations)) (world st)
            = (Inl e, w1)"
  with assms show "fst (sendMany env client operations st) = ([], Some e)"
    by (simp add: sendMany_batch_failed_receive)
next
  assume "receive env (request_of env client (world st) (batch_query operations)) (world st)
            = (Inr serializedResponse, w1)
          \<and> deserialize env (rootComponent (snd (params first)))
              (response_components serializedResponse) w1 = (Inl e, w2)"
  then have r: "receive env (request_of env client (world st) (batch_query operations)) (world st)
            = (Inr serializedResponse, w1)"
    and d: "deserialize env (rootComponent (snd (params first)))
              (response_components serializedResponse) w1 = (Inl e, w2)" by simp_all
  from sendMany_batch_failed_components[OF assms r d]
  show "fst (sendMany env client operations st) = ([], Some e)" by simp
next
  assume a: "receive env (request_of env client (world st) (batch_query operations)) (world st)
            = (Inr serializedResponse, w1)
          \<and> deserialize env (rootComponent (snd (params first)))
              (response_components serializedResponse) w1 = (Inr v, w2)
          \<and> response_result serializedResponse = JArray results"
  then have r: "receive env (request_of env client (world st) (batch_query operations)) (world st)
            = (Inr serializedResponse, w1)"
    and d: "deserialize env (rootComponent (snd (params first)))
              (response_components serializedResponse) w1 = (Inr v, w2)"
    and j: "response_result serializedResponse = JArray results" by simp_all
  have s: "fst (sendMany env client operations st) =
      (map settlement_of (jobs_results env (batch_jobs operations 0 results) w2), None)"
    using sendMany_batch_settled[OF assms r d j] by simp
  show "snd (fst (sendMany env client operations st)) = None" by (simp add: s)
  show "length (fst (fst (sendMany env client operations st))) = length operations"
    by (simp add: s)
  show "\<forall>j < length operations.
                  fst (fst (sendMany env client operations st)) ! j =
                    settlement_of
                      (fst (deserialize env (rootComponent (snd (params (operations ! j))))
                              (element_or_undefined results j)
                              (jobs_world env (take j (batch_jobs operations 0 results)) w2)))"
    by (simp add: s jobs_results_nth batch_jobs_nth)
qed

text \<open>
  In the small system the second result is an error sentinel: the second caller alone is
  rejected.
\<close>

theorem batch_partial_failure_witness:
  "fst (sendMany example (ComponentClient None True) example_operations
          \<lparr>world = 0, calls = []\<rparr>) =
     ([Resolved (Value ''first''), Rejected (RemoteError ''boom''), Resolved (Value ''third'')],
      None)"
proof -
  let ?s = "sendMany example (ComponentClient None True) example_operations
          \<lparr>world = 0, calls = []\<rparr>"
  let ?results = "[JString ''first'', JObject [(''__error'', JString ''boom'')], JString ''third'']"
  have ops: "example_operations =
      hd example_operations # hd (tl example_operations) # tl (tl example_operations)"
    by (simp add: example_operations_def)
  have answered: "receive example
         (request_of example (ComponentClient None True)
            (world \<lparr>world = 0, calls = []\<rparr>) (batch_query example_operations))
         (world \<lparr>world = 0, calls = []\<rparr>) = (Inr example_response, Suc 0)
      \<and> deserialize example (rootComponent (snd (params (hd example_operations))))
          (response_components example_response) (Suc 0) = (Inr (PlainArray []), Suc 0)
      \<and> response_result example_response = JArray ?results"
    by (simp add: example_def example_response_def)
  note settled = batch_partial_failure [OF ops, THEN conjunct2, THEN conjunct2, THEN mp, OF answered]
  from settled have none: "snd (fst ?s) = None" and len: "length (fst (fst ?s)) = 3"
    by (simp_all add: example_operations_def)
  from settled have each: "\<And>j. j < 3 \<Longrightarrow> fst (fst ?s) ! j =
      settlement_of (fst (deserialize example (rootComponent (snd (params (example_operations ! j))))
         (element_or_undefined ?results j)
         (jobs_world example (take j (batch_jobs example_operations 0 ?results)) (Suc 0))))"
    by (simp add: example_operations_def)
  have "fst (fst ?s) ! 0 = Resolved (Value ''first'')"
    using each[of 0] by (simp add: example_operations_def example_def element_or_undefined_def)
  moreover have "fst (fst ?s) ! Suc 0 = Rejected (RemoteError ''boom'')"
    using each[of "Suc 0"]
    by (simp add: example_operations_def example_def element_or_undefined_def)
  moreover have "fst (fst ?s) ! Suc (Suc 0) = Resolved (Value ''third'')"
    using each[of "Suc (Suc 0)"]
    by (simp add: example_operations_def example_def element_or_undefined_def)
  ultimately have "fst (fst ?s) =
      [Resolved (Value ''first''), Rejected (RemoteError ''boom''), Resolved (Value ''third'')]"
    using len by (auto simp: length_Suc_conv numeral_3_eq_3)
  with none show ?thesis by (simp add: prod_eq_iff)
qed

text \<open>
  The claim as stated fails where the transport call succeeds and the response brings a
  component the deserializer does not know: the results at index 0 and 2 are fine, but
  \<^verbatim>\<open>_sendMany\<close> throws before it settles any operation, so no caller resolves with its
  result.
\<close>

theorem batch_partial_failure_counterexample:
  "receive example_unknown_component
     (request_of example_unknown_component (ComponentClient None True) 0
        (batch_query example_operations)) 0
     = (Inr \<lparr>response_result =
              JArray [JString ''first'', JObject [(''__error'', JString ''boom'')],
                      JString ''third''],
            response_components = JObject [(''__Component'', JString ''Ghost'')]\<rparr>, 1)
   \<and> fst (sendMany example_unknown_component (ComponentClient None True) example_operations
            \<lparr>world = 0, calls = []\<rparr>)
     = ([], Some (UnknownComponent ''Ghost''))"
  by (simp add: sendMany_unfold call_receive_def call_deserialize_def
        example_unknown_component_def example_def example_response_def example_operations_def)

subsection \<open>Three calls in one tick\<close>

text \<open>
  Claim C2, as the code has it. Three calls of method proxies on components, made on a
  batchable client within one scheduling tick, are put in the batcher in order and lead to
  exactly one call of \<^verbatim>\<open>receive\<close>, whose query is the serialization of
  \<^verbatim>\<open>{'||': [q1, q2, q3]}\<close>, the three queries in the order of the calls. When the server
  answers with three results and the shared components of the response deserialize without
  an error, each caller is settled with the outcome of deserializing the result at its own
  index, a value or an error, whatever the outcomes of the other two.
\<close>

theorem three_proxy_calls_one_receive:
  fixes env :: "('a, 'c::finite, 'w) collaborators"
  assumes "ensureComponentClass env this1 = Inr c1"
    and "ensureComponentClass env this2 = Inr c2"
    and "ensureComponentClass env this3 = Inr c3"
    and "three_calls_in_one_tick env version (name1, this1, args1) (name2, this2, args2)
           (name3, this3, args3) st = (pendings, settlements, st')"
    and "queries = PlainObj [(''||'', PlainArray [methodProxy_query name1 this1 args1,
                                                 methodProxy_query name2 this2 args2,
                                                 methodProxy_query name3 this3 args3])]"
  shows "pendings = [Pending 0, Pending 1, Pending 2]
       \<and> receives (calls st') = receives (calls st) @
            [\<lparr>request_query = fst (serialize env attributeFilter (world st) queries),
              request_components = snd (serializeQuery env (world st) queries),
              request_version = version\<rparr>]
       \<and> (receive env \<lparr>request_query = fst (serialize env attributeFilter (world st) queries),
              request_components = snd (serializeQuery env (world st) queries),
              request_version = version\<rparr> (world st)
            = (Inr \<lparr>response_result = JArray [result1, result2, result3],
                    response_components = components\<rparr>, w1)
          \<and> deserialize env (Some c1) components w1 = (Inr v, w2)
          \<and> deserialize env (Some c1) result1 w2 = (outcome1, w3)
          \<and> deserialize env (Some c2) result2 w3 = (outcome2, w4)
          \<and> deserialize env (Some c3) result3 w4 = (outcome3, w5)
          \<longrightarrow> settlements =
                [settlement_of outcome1, settlement_of outcome2, settlement_of outcome3])"
proof -
  let ?ops = "[\<lparr>params = (methodProxy_query name1 this1 args1, \<lparr>rootComponent = Some c1\<rparr>)\<rparr>,
               \<lparr>params = (methodProxy_query name2 this2 args2, \<lparr>rootComponent = Some c2\<rparr>)\<rparr>,
               \<lparr>params = (methodProxy_query name3 this3 args3, \<lparr>rootComponent = Some c3\<rparr>)\<rparr>]"
  let ?client = "ComponentClient version True :: ('a, 'c) client"
  let ?req = "\<lparr>request_query = fst (serialize env attributeFilter (world st) queries),
              request_components = snd (serializeQuery env (world st) queries),
              request_version = version\<rparr>"
  have q: "batch_query ?ops = queries" by (simp add: batch_query_def assms(5))
  have req: "request_of env ?client (world st) (batch_query ?ops) = ?req"
    by (simp add: q request_of_def ComponentClient_def serializeQuery_def Let_def case_prod_beta)
  obtain ss thrown where run: "sendMany env ?client ?ops st = ((ss, thrown), st')"
    and pend: "pendings = [Pending 0, Pending 1, Pending 2]"
    and sett: "settlements = ss @ (case thrown of None \<Rightarrow> []
                              | Some e \<Rightarrow> replicate (3 - length ss) (Rejected e))"
    using assms(4) three_calls_in_one_tick_unfold[OF assms(1,2,3), of version name1 args1 name2 args2 name3 args3 st]
    by (auto split: prod.splits)
  have recv: "receives (calls st') = receives (calls st) @ [?req]"
    using sendMany_batch_receives[of ?ops env ?client st] run req by simp
  have settled: "settlements = [settlement_of outcome1, settlement_of outcome2, settlement_of outcome3]"
    if a: "receive env ?req (world st)
            = (Inr \<lparr>response_result = JArray [result1, result2, result3],
                    response_components = components\<rparr>, w1)
          \<and> deserialize env (Some c1) components w1 = (Inr v, w2)
          \<and> deserialize env (Some c1) result1 w2 = (outcome1, w3)
          \<and> deserialize env (Some c2) result2 w3 = (outcome2, w4)
          \<and> deserialize env (Some c3) result3 w4 = (outcome3, w5)"
  proof -
    from a req have r: "receive env (request_of env ?client (world st) (batch_query ?ops)) (world st)
        = (Inr \<lparr>response_result = JArray [result1, result2, result3],
                    response_components = components\<rparr>, w1)" by simp
    have "sendMany env ?client ?ops st =
           ((map settlement_of (jobs_results env (batch_jobs ?ops 0 [result1, result2, result3]) w2), None),
            \<lparr>world = jobs_world env (batch_jobs ?ops 0 [result1, result2, result3]) w2,
             calls = calls st @
               [Receive (request_of env ?client (world st) (batch_query ?ops)),
                Deserialize (Some c1) components]
               @ map (\<lambda>(root, value). Deserialize root value)
                   (batch_jobs ?ops 0 [result1, result2, result3])\<rparr>)"
      using sendMany_batch_settled[OF refl r, of v w2 "[result1, result2, result3]"] a by simp
    with run a have "ss = [settlement_of outcome1, settlement_of outcome2, settlement_of outcome3]"
      and "thrown = None"
      by (simp_all add: element_or_undefined_def)
    with sett show ?thesis by simp
  qed
  from pend recv settled show ?thesis by blast
qed

text \<open>The three calls on the small system.\<close>

theorem three_proxy_calls_one_receive_witness:
  "fst (three_calls_in_one_tick example None (''load'', ''movie1'', []) (''load'', ''movie2'', [])
          (''load'', ''movie3'', []) \<lparr>world = 0, calls = []\<rparr>)
     = [Pending 0, Pending 1, Pending 2]
   \<and> fst (snd (three_calls_in_one_tick example None (''load'', ''movie1'', [])
          (''load'', ''movie2'', []) (''load'', ''movie3'', []) \<lparr>world = 0, calls = []\<rparr>))
     = [Resolved (Value ''first''), Rejected (RemoteError ''boom''), Resolved (Value ''third'')]
   \<and> receives (calls (snd (snd (three_calls_in_one_tick example None (''load'', ''movie1'', [])
          (''load'', ''movie2'', []) (''load'', ''movie3'', []) \<lparr>world = 0, calls = []\<rparr>))))
     = [\<lparr>request_query =
           JObject [(''||'', JArray
             [JObject [(''<='', JString ''movie1''), (''load=>'', JObject [(''()'', JArray [])])],
              JObject [(''<='', JString ''movie2''), (''load=>'', JObject [(''()'', JArray [])])],
              JObject [(''<='', JString ''movie3''), (''load=>'', JObject [(''()'', JArray [])])]])],
         request_components =
           Some [JObject [(''__Component'', JString ''A'')],
                 JObject [(''__Component'', JString ''B'')],
                 JObject [(''__Component'', JString ''C'')]],
         request_version = None\<rparr>]"
proof -
  let ?st = "\<lparr>world = 0, calls = []\<rparr> :: (char, nat) run"
  let ?run = "three_calls_in_one_tick example None (''load'', ''movie1'', [])
     (''load'', ''movie2'', []) (''load'', ''movie3'', []) ?st"
  let ?queries = "PlainObj [(''||'', PlainArray [methodProxy_query ''load'' ''movie1'' [],
                                                 methodProxy_query ''load'' ''movie2'' [],
                                                 methodProxy_query ''load'' ''movie3'' []])]"
  have ens: "ensureComponentClass example ''movie1'' = Inr (CHR ''A'')"
     "ensureComponentClass example ''movie2'' = Inr (CHR ''A'')"
     "ensureComponentClass example ''movie3'' = Inr (CHR ''A'')"
    by (simp_all add: example_def)
  have run: "?run = (fst ?run, fst (snd ?run), snd (snd ?run))" by simp
  have answered:
    "receive example \<lparr>request_query = fst (serialize example attributeFilter (world ?st) ?queries),
              request_components = snd (serializeQuery example (world ?st) ?queries),
              request_version = None\<rparr> (world ?st)
            = (Inr \<lparr>response_result = JArray [JString ''first'',
                       JObject [(''__error'', JString ''boom'')], JString ''third''],
                    response_components = JUndefined\<rparr>, Suc 0)
          \<and> deserialize example (Some (CHR ''A'')) JUndefined (Suc 0) = (Inr (PlainArray []), Suc 0)
          \<and> deserialize example (Some (CHR ''A'')) (JString ''first'') (Suc 0)
                = (Inr (Value ''first''), Suc 0)
          \<and> deserialize example (Some (CHR ''A'')) (JObject [(''__error'', JString ''boom'')]) (Suc 0)
                = (Inl (RemoteError ''boom''), Suc 0)
          \<and> deserialize example (Some (CHR ''A'')) (JString ''third'') (Suc 0)
                = (Inr (Value ''third''), Suc 0)"
    by (simp add: example_def example_response_def)
  note t = three_proxy_calls_one_receive [OF ens run refl]
  from t have p: "fst ?run = [Pending 0, Pending 1, Pending 2]" by simp
  from t[THEN conjunct2, THEN conjunct2, THEN mp, OF answered]
  have s: "fst (snd ?run) =
      [Resolved (Value ''first''), Rejected (RemoteError ''boom''), Resolved (Value ''third'')]"
    by simp
  from t have "receives (calls (snd (snd ?run))) = receives (calls ?st) @
       [\<lparr>request_query = fst (serialize example attributeFilter (world ?st) ?queries),
         request_components = snd (serializeQuery example (world ?st) ?queries),
         request_version = None\<rparr>]" by simp
  then have r: "receives (calls (snd (snd ?run))) =
      [\<lparr>request_query =
           JObject [(''||'', JArray
             [JObject [(''<='', JString ''movie1''), (''load=>'', JObject [(''()'', JArray [])])],
              JObject [(''<='', JString ''movie2''), (''load=>'', JObject [(''()'', JArray [])])],
              JObject [(''<='', JString ''movie3''), (''load=>'', JObject [(''()'', JArray [])])]])],
         request_components =
           Some [JObject [(''__Component'', JString ''A'')],
                 JObject [(''__Component'', JString ''B'')],
                 JObject [(''__Component'', JString ''C'')]],
         request_version = None\<rparr>]"
    by (simp add: example_def methodProxy_query_def serializeQuery_def Let_def
          serializeComponentDependencies.simps Set_add_def example_serializeComponent_def)
  from p s r show ?thesis by simp
qed

text \<open>
  The claim as stated fails where the one \<^verbatim>\<open>receive\<close> call succeeds with three results and
  the response brings a component the deserializer does not know: \<^verbatim>\<open>_sendMany\<close> throws
  while it deserializes the shared components, before it looks at any result, and none of
  the three callers receives its own result; all three are rejected with that error.
\<close>

theorem three_proxy_calls_one_receive_counterexample:
  "receive example_unknown_component
     (request_of example_unknown_component (ComponentClient None True) 0
        (PlainObj [(''||'', PlainArray [methodProxy_query ''load'' ''movie1'' [],
                                        methodProxy_query ''load'' ''movie2'' [],
                                        methodProxy_query ''load'' ''movie3'' []])])) 0
     = (Inr \<lparr>response_result =
              JArray [JString ''first'', JObject [(''__error'', JString ''boom'')],
                      JString ''third''],
            response_components = JObject [(''__Component'', JString ''Ghost'')]\<rparr>, 1)
   \<and> fst (snd (three_calls_in_one_tick example_unknown_component None (''load'', ''movie1'', [])
          (''load'', ''movie2'', []) (''load'', ''movie3'', []) \<lparr>world = 0, calls = []\<rparr>))
     = [Rejected (UnknownComponent ''Ghost''), Rejected (UnknownComponent ''Ghost''),
        Rejected (UnknownComponent ''Ghost'')]"
proof -
  have ens: "ensureComponentClass example_unknown_component ''movie1'' = Inr (CHR ''A'')"
     "ensureComponentClass example_unknown_component ''movie2'' = Inr (CHR ''A'')"
     "ensureComponentClass example_unknown_component ''movie3'' = Inr (CHR ''A'')"
    by (simp_all add: example_unknown_component_def example_def)
  have r: "receive example_unknown_component
     (request_of example_unknown_component (ComponentClient None True) 0
        (PlainObj [(''||'', PlainArray [methodProxy_query ''load'' ''movie1'' [],
                                        methodProxy_query ''load'' ''movie2'' [],
                                        methodProxy_query ''load'' ''movie3'' []])])) 0
     = (Inr \<lparr>response_result =
              JArray [JString ''first'', JObject [(''__error'', JString ''boom'')],
                      JString ''third''],
            response_components = JObject [(''__Component'', JString ''Ghost'')]\<rparr>, 1)"
    by (simp add: example_unknown_component_def example_def example_response_def)
  have s: "fst (sendMany example_unknown_component (ComponentClient None True)
                 [\<lparr>params = (methodProxy_query ''load'' ''movie1'' [], \<lparr>rootComponent = Some (CHR ''A'')\<rparr>)\<rparr>,
                  \<lparr>params = (methodProxy_query ''load'' ''movie2'' [], \<lparr>rootComponent = Some (CHR ''A'')\<rparr>)\<rparr>,
                  \<lparr>params = (methodProxy_query ''load'' ''movie3'' [], \<lparr>rootComponent = Some (CHR ''A'')\<rparr>)\<rparr>]
                 \<lparr>world = 0, calls = []\<rparr>)
           = ([], Some (UnknownComponent ''Ghost''))"
    by (simp add: sendMany_unfold call_receive_def call_deserialize_def
          example_unknown_component_def example_def example_response_def)
  have "fst (snd (three_calls_in_one_tick example_unknown_component None (''load'', ''movie1'', [])
          (''load'', ''movie2'', []) (''load'', ''movie3'', []) \<lparr>world = 0, calls = []\<rparr>))
     = [Rejected (UnknownComponent ''Ghost''), Rejected (UnknownComponent ''Ghost''),
        Rejected (UnknownComponent ''Ghost'')]"
    using s unfolding three_calls_in_one_tick_unfold[OF ens]
    by (simp add: case_prod_beta numeral_3_eq_3)
  with r show ?thesis by blast
qed

subsection \<open>Versions\<close>


subsection \<open>The dependencies of a query\<close>

text \<open>
  Claim C1, as the code has it. Let \<open>A\<close> depend on \<open>B\<close> and \<open>B\<close> on \<open>C\<close>: serializing \<open>A\<close>
  registers \<open>B\<close>, serializing \<open>B\<close> registers \<open>C\<close>, serializing \<open>C\<close> registers nothing. Let the
  component dependencies that the serialization of the query registers lie among \<open>A\<close>, \<open>B\<close>,
  \<open>C\<close> and hold \<open>A\<close> or \<open>B\<close> (\<open>B\<close> where \<open>A\<close> is serialized within the query itself), any
  number of times. Then \<^verbatim>\<open>_serializeQuery\<close> returns, and \<^verbatim>\<open>serializedComponents\<close> holds the
  entries of the classes handled, in the order they were handled, where each of \<open>B\<close> and
  \<open>C\<close> is handled exactly once, \<open>A\<close> once when the query registers it and not otherwise, and
  no other class. So there is exactly one entry for \<open>B\<close> unless \<open>B\<close> serializes to
  \<^verbatim>\<open>undefined\<close> (\<^verbatim>\<open>ignoreEmptyComponents\<close>), when there is none, and the same holds of \<open>C\<close>;
  \<^verbatim>\<open>serializedComponents\<close> itself is \<^verbatim>\<open>undefined\<close> when there is no entry at all.
\<close>

theorem dependency_chain_serialized_once:
  fixes env :: "('a, 'c::finite, 'w) collaborators"
  assumes "A \<in> set (snd (serialize env attributeFilter w query))
         \<or> B \<in> set (snd (serialize env attributeFilter w query))"
    and "set (snd (serialize env attributeFilter w query)) \<subseteq> {A, B, C}"
    and "set (snd (serializeComponent env attributeFilter w A)) = {B}"
    and "set (snd (serializeComponent env attributeFilter w B)) = {C}"
    and "set (snd (serializeComponent env attributeFilter w C)) = {}"
  shows "\<exists>order. distinct order
           \<and> set order = (if A \<in> set (snd (serialize env attributeFilter w query))
                           then {A, B, C} else {B, C})
           \<and> snd (serializeQuery env w query) = serialized_entries env w order"
proof -
  let ?G = "dependency_graph env w"
  let ?I = "set (snd (serialize env attributeFilter w query))"
  have AB: "(A, B) \<in> ?G" and BC: "(B, C) \<in> ?G"
    using assms(3,4) by (simp_all add: dependency_graph_def)
  have B: "B \<in> ?G\<^sup>* `` ?I"
  proof (cases "A \<in> ?I")
    case True
    with AB show ?thesis by auto
  next
    case False
    with assms(1) show ?thesis by auto
  qed
  then obtain i where i: "i \<in> ?I" "(i, B) \<in> ?G\<^sup>*" by auto
  from i(2) BC have "(i, C) \<in> ?G\<^sup>*" by (rule rtrancl.rtrancl_into_rtrancl)
  with i(1) have C: "C \<in> ?G\<^sup>* `` ?I" by auto
  have closure: "?G\<^sup>* `` ?I = (if A \<in> ?I then {A, B, C} else {B, C})"
  proof (cases "A \<in> ?I")
    case True
    have "?G\<^sup>* `` ?I \<subseteq> {A, B, C}"
    proof (rule closed_contains_reachable)
      show "?I \<subseteq> {A, B, C}" by (rule assms(2))
      show "\<forall>h\<in>{A, B, C}. \<forall>d. (h, d) \<in> ?G \<longrightarrow> d \<in> {A, B, C}"
        using assms(3,4,5) by (auto simp: dependency_graph_def)
    qed
    moreover from True have "A \<in> ?G\<^sup>* `` ?I" by auto
    ultimately show ?thesis using True B C by auto
  next
    case False
    have "?G\<^sup>* `` ?I \<subseteq> {B, C}"
    proof (rule closed_contains_reachable)
      show "?I \<subseteq> {B, C}" using assms(2) False by auto
      show "\<forall>h\<in>{B, C}. \<forall>d. (h, d) \<in> ?G \<longrightarrow> d \<in> {B, C}"
        using assms(4,5) by (auto simp: dependency_graph_def)
    qed
    then show ?thesis using False B C by auto
  qed
  with serializeQuery_closure[of env w query] show ?thesis by simp
qed

text \<open>
  In the small system the query registers \<open>A\<close>, and the three classes have an entry each.
  Where \<open>A\<close> is serialized within the query, \<open>B\<close> and \<open>C\<close> have an entry each and \<open>A\<close> none.
\<close>

theorem dependency_chain_serialized_once_witness:
  "set (snd (serialize example attributeFilter 0 (PlainObj [(''<='', Value ''movie'')])))
     = {CHR ''A''}
   \<and> set (snd (serialize example_inline_A attributeFilter 0 (PlainObj [(''<='', Value ''movie'')])))
     = {CHR ''B''}
   \<and> set (snd (serializeComponent example attributeFilter 0 (CHR ''A''))) = {CHR ''B''}
   \<and> set (snd (serializeComponent example attributeFilter 0 (CHR ''B''))) = {CHR ''C''}
   \<and> set (snd (serializeComponent example attributeFilter 0 (CHR ''C''))) = {}
   \<and> (\<exists>order. distinct order \<and> set order = {CHR ''A'', CHR ''B'', CHR ''C''}
         \<and> snd (serializeQuery example 0 (PlainObj [(''<='', Value ''movie'')]))
             = serialized_entries example 0 order)
   \<and> (\<exists>order. distinct order \<and> set order = {CHR ''B'', CHR ''C''}
         \<and> snd (serializeQuery example_inline_A 0 (PlainObj [(''<='', Value ''movie'')]))
             = serialized_entries example_inline_A 0 order)
   \<and> snd (serializeQuery example 0 (PlainObj [(''<='', Value ''movie'')]))
       = Some [JObject [(''__Component'', JString ''A'')],
               JObject [(''__Component'', JString ''B'')],
               JObject [(''__Component'', JString ''C'')]]
   \<and> snd (serializeQuery example_inline_A 0 (PlainObj [(''<='', Value ''movie'')]))
       = Some [JObject [(''__Component'', JString ''B'')],
               JObject [(''__Component'', JString ''C'')]]"
proof -
  let ?query = "PlainObj [(''<='', Value ''movie'')]"
  have h: "CHR ''A'' \<in> set (snd (serialize example attributeFilter 0 ?query))
         \<or> CHR ''B'' \<in> set (snd (serialize example attributeFilter 0 ?query))"
    "set (snd (serialize example attributeFilter 0 ?query)) \<subseteq> {CHR ''A'', CHR ''B'', CHR ''C''}"
    "set (snd (serializeComponent example attributeFilter 0 (CHR ''A''))) = {CHR ''B''}"
    "set (snd (serializeComponent example attributeFilter 0 (CHR ''B''))) = {CHR ''C''}"
    "set (snd (serializeComponent example attributeFilter 0 (CHR ''C''))) = {}"
    by (simp_all add: example_def example_serializeComponent_def)
  have g: "CHR ''A'' \<in> set (snd (serialize example_inline_A attributeFilter 0 ?query))
         \<or> CHR ''B'' \<in> set (snd (serialize example_inline_A attributeFilter 0 ?query))"
    "set (snd (serialize example_inline_A attributeFilter 0 ?query))
       \<subseteq> {CHR ''A'', CHR ''B'', CHR ''C''}"
    "set (snd (serializeComponent example_inline_A attributeFilter 0 (CHR ''A''))) = {CHR ''B''}"
    "set (snd (serializeComponent example_inline_A attributeFilter 0 (CHR ''B''))) = {CHR ''C''}"
    "set (snd (serializeComponent example_inline_A attributeFilter 0 (CHR ''C''))) = {}"
    by (simp_all add: example_inline_A_def example_def example_serializeComponent_def)
  have i: "set (snd (serialize example attributeFilter 0 ?query)) = {CHR ''A''}"
    "set (snd (serialize example_inline_A attributeFilter 0 ?query)) = {CHR ''B''}"
    by (simp_all add: example_inline_A_def example_def)
  have e: "snd (serializeQuery example 0 ?query)
       = Some [JObject [(''__Component'', JString ''A'')],
               JObject [(''__Component'', JString ''B'')],
               JObject [(''__Component'', JString ''C'')]]"
    by (simp add: serializeQuery_def example_def example_serializeComponent_def Let_def
          serializeComponentDependencies.simps Set_add_def)
  have f: "snd (serializeQuery example_inline_A 0 ?query)
       = Some [JObject [(''__Component'', JString ''B'')],
               JObject [(''__Component'', JString ''C'')]]"
    by (simp add: serializeQuery_def example_inline_A_def example_def
          example_serializeComponent_def Let_def serializeComponentDependencies.simps Set_add_def)
  have one: "\<exists>order. distinct order \<and> set order = {CHR ''A'', CHR ''B'', CHR ''C''}
         \<and> snd (serializeQuery example 0 ?query) = serialized_entries example 0 order"
    using dependency_chain_serialized_once[OF h] i(1) by simp
  have two: "\<exists>order. distinct order \<and> set order = {CHR ''B'', CHR ''C''}
         \<and> snd (serializeQuery example_inline_A 0 ?query)
             = serialized_entries example_inline_A 0 order"
    using dependency_chain_serialized_once[OF g] i(2) by simp
  from one two h(3,4,5) i e f show ?thesis by blast
qed

text \<open>
  The claim as stated fails where \<open>B\<close> has nothing to serialize: the list has an entry for
  \<open>A\<close> and one for \<open>C\<close>, and none for \<open>B\<close>.
\<close>

theorem dependency_chain_serialized_once_counterexample:
  "set (snd (serialize example_empty_B attributeFilter 0 (PlainObj [(''<='', Value ''movie'')])))
     = {CHR ''A''}
   \<and> set (snd (serializeComponent example_empty_B attributeFilter 0 (CHR ''A''))) = {CHR ''B''}
   \<and> set (snd (serializeComponent example_empty_B attributeFilter 0 (CHR ''B''))) = {CHR ''C''}
   \<and> set (snd (serializeComponent example_empty_B attributeFilter 0 (CHR ''C''))) = {}
   \<and> fst (serializeComponent example_empty_B attributeFilter 0 (CHR ''B'')) = None
   \<and> snd (serializeQuery example_empty_B 0 (PlainObj [(''<='', Value ''movie'')]))
       = Some [JObject [(''__Component'', JString ''A'')],
               JObject [(''__Component'', JString ''C'')]]"
  by (simp add: serializeQuery_def example_empty_B_def example_def example_serializeComponent_def
        Let_def serializeComponentDependencies.simps Set_add_def)

section \<open>The round trip of serialization\<close>

lemma collect_map_round_trip:
  assumes "\<forall>x\<in>set xs. \<exists>j. f x = Inr j \<and> g j = Inr x"
  shows "\<exists>js. collect (map f xs) = Inr js \<and> collect (map g js) = Inr xs"
  using assms
proof (induction xs)
  case Nil
  then show ?case by simp
next
  case (Cons x xs)
  then obtain j where j: "f x = Inr j" "g j = Inr x" by auto
  from Cons obtain js where js: "collect (map f xs) = Inr js" "collect (map g js) = Inr xs" by auto
  show ?case using j js by simp
qed

lemma entries_round_trip:
  assumes "\<forall>entry\<in>set kvs. fst entry \<notin> reserved
             \<and> (\<exists>j. serialize_value so (snd entry) = Inr j \<and> deserialize_value dopt j = Inr (snd entry))"
  shows "\<exists>js. collect (map (\<lambda>(name, v). case serialize_value so v of
                                          Inl e \<Rightarrow> Inl e | Inr j \<Rightarrow> Inr (name, j)) kvs) = Inr js
      \<and> map fst js = map fst kvs
      \<and> collect (map (\<lambda>(name, j). case deserialize_value dopt j of
                                             Inl e \<Rightarrow> Inl e | Inr v \<Rightarrow> Inr (name, v)) js) = Inr kvs"
  using assms
proof (induction kvs)
  case Nil
  then show ?case by simp
next
  case (Cons entry kvs)
  obtain name v where entry: "entry = (name, v)" by (cases entry)
  from Cons.prems entry obtain j where j: "serialize_value so v = Inr j" "deserialize_value dopt j = Inr v"
    by auto
  from Cons obtain js where js:
    "collect (map (\<lambda>(name, v). case serialize_value so v of
                                          Inl e \<Rightarrow> Inl e | Inr j \<Rightarrow> Inr (name, j)) kvs) = Inr js"
    "map fst js = map fst kvs"
    "collect (map (\<lambda>(name, j). case deserialize_value dopt j of
                                             Inl e \<Rightarrow> Inl e | Inr v \<Rightarrow> Inr (name, v)) js) = Inr kvs"
    by auto
  show ?case using entry j js by simp
qed

lemma unreserved_entries:
  assumes "map fst js = map fst kvs" and "\<forall>entry\<in>set kvs. fst entry \<notin> reserved"
  shows "filter (\<lambda>(name, j). name \<notin> reserved) js = js"
    and "k \<in> reserved \<Longrightarrow> map_of js k = None"
proof -
  have "\<forall>e\<in>set js. fst e \<notin> reserved"
  proof
    fix e assume "e \<in> set js"
    then have "fst e \<in> set (map fst js)" by simp
    with assms show "fst e \<notin> reserved" by auto
  qed
  then show "filter (\<lambda>(name, j). name \<notin> reserved) js = js"
    by (induction js) auto
  show "k \<in> reserved \<Longrightarrow> map_of js k = None"
    using \<open>\<forall>e\<in>set js. fst e \<notin> reserved\<close> by (auto simp: map_of_eq_None_iff)
qed

lemma reserved_names [simp]:
  "''__undefined'' \<in> reserved" "''__error'' \<in> reserved" "''__Component'' \<in> reserved"
  "''__component'' \<in> reserved" "''__new'' \<in> reserved" "''__function'' \<in> reserved"
  by (simp_all add: reserved_def)

lemma plain_data_round_trips: "plain_data known v \<Longrightarrow> round_trips known sf df v"
proof (induction v)
  case (VArray xs)
  let ?so = "\<lparr>knownComponents = known, serializeFunctions = sf\<rparr>"
  let ?do = "\<lparr>registry = known, deserializeFunctions = df\<rparr>"
  have "\<forall>x\<in>set xs. \<exists>j. serialize_value ?so x = Inr j \<and> deserialize_value ?do j = Inr x"
    using VArray by (auto simp: list_all_iff round_trips_def)
  from collect_map_round_trip[OF this] show ?case
    by (auto simp: round_trips_def)
next
  case (VObject kvs)
  let ?so = "\<lparr>knownComponents = known, serializeFunctions = sf\<rparr>"
  let ?do = "\<lparr>registry = known, deserializeFunctions = df\<rparr>"
  have h: "\<forall>entry\<in>set kvs. fst entry \<notin> reserved
             \<and> (\<exists>j. serialize_value ?so (snd entry) = Inr j \<and> deserialize_value ?do j = Inr (snd entry))"
  proof
    fix entry assume e: "entry \<in> set kvs"
    have "snd entry \<in> Basic_BNFs.snds entry" by (cases entry) simp
    with VObject e show "fst entry \<notin> reserved
             \<and> (\<exists>j. serialize_value ?so (snd entry) = Inr j \<and> deserialize_value ?do j = Inr (snd entry))"
      by (auto simp: list_all_iff round_trips_def)
  qed
  from entries_round_trip[OF h] obtain js where js:
    "collect (map (\<lambda>(name, v). case serialize_value ?so v of
                                          Inl e \<Rightarrow> Inl e | Inr j \<Rightarrow> Inr (name, j)) kvs) = Inr js"
    "map fst js = map fst kvs"
    "collect (map (\<lambda>(name, j). case deserialize_value ?do j of
                                             Inl e \<Rightarrow> Inl e | Inr v \<Rightarrow> Inr (name, v)) js) = Inr kvs"
    by blast
  from h have u: "\<forall>entry\<in>set kvs. fst entry \<notin> reserved" by simp
  show ?case
    using js unreserved_entries[OF js(2) u]
    by (simp add: round_trips_def)
next
  case (VClass name kvs)
  let ?so = "\<lparr>knownComponents = known, serializeFunctions = sf\<rparr>"
  let ?do = "\<lparr>registry = known, deserializeFunctions = df\<rparr>"
  have h: "\<forall>entry\<in>set kvs. fst entry \<notin> reserved
             \<and> (\<exists>j. serialize_value ?so (snd entry) = Inr j \<and> deserialize_value ?do j = Inr (snd entry))"
  proof
    fix entry assume e: "entry \<in> set kvs"
    have "snd entry \<in> Basic_BNFs.snds entry" by (cases entry) simp
    with VClass e show "fst entry \<notin> reserved
             \<and> (\<exists>j. serialize_value ?so (snd entry) = Inr j \<and> deserialize_value ?do j = Inr (snd entry))"
      by (auto simp: list_all_iff round_trips_def)
  qed
  from entries_round_trip[OF h] obtain js where js:
    "collect (map (\<lambda>(name, v). case serialize_value ?so v of
                                          Inl e \<Rightarrow> Inl e | Inr j \<Rightarrow> Inr (name, j)) kvs) = Inr js"
    "map fst js = map fst kvs"
    "collect (map (\<lambda>(name, j). case deserialize_value ?do j of
                                             Inl e \<Rightarrow> Inl e | Inr v \<Rightarrow> Inr (name, v)) js) = Inr kvs"
    by blast
  from h have u: "\<forall>entry\<in>set kvs. fst entry \<notin> reserved" by simp
  show ?case
    using js unreserved_entries[OF js(2) u] VClass.prems
    by (simp add: round_trips_def)
next
  case (VInstance name isNew kvs)
  let ?so = "\<lparr>knownComponents = known, serializeFunctions = sf\<rparr>"
  let ?do = "\<lparr>registry = known, deserializeFunctions = df\<rparr>"
  have h: "\<forall>entry\<in>set kvs. fst entry \<notin> reserved
             \<and> (\<exists>j. serialize_value ?so (snd entry) = Inr j \<and> deserialize_value ?do j = Inr (snd entry))"
  proof
    fix entry assume e: "entry \<in> set kvs"
    have "snd entry \<in> Basic_BNFs.snds entry" by (cases entry) simp
    with VInstance e show "fst entry \<notin> reserved
             \<and> (\<exists>j. serialize_value ?so (snd entry) = Inr j \<and> deserialize_value ?do j = Inr (snd entry))"
      by (auto simp: list_all_iff round_trips_def)
  qed
  from entries_round_trip[OF h] obtain js where js:
    "collect (map (\<lambda>(name, v). case serialize_value ?so v of
                                          Inl e \<Rightarrow> Inl e | Inr j \<Rightarrow> Inr (name, j)) kvs) = Inr js"
    "map fst js = map fst kvs"
    "collect (map (\<lambda>(name, j). case deserialize_value ?do j of
                                             Inl e \<Rightarrow> Inl e | Inr v \<Rightarrow> Inr (name, v)) js) = Inr kvs"
    by blast
  from h have u: "\<forall>entry\<in>set kvs. fst entry \<notin> reserved" by simp
  show ?case
    using js unreserved_entries[OF js(2) u] VInstance.prems
    by (simp add: round_trips_def)
qed (simp_all add: round_trips_def)

text \<open>
  Claim C5, as the serializer of the spec has it. Let \<open>x\<close> be a component instance whose
  class is among the known components, and whose set attributes hold plain data only: no
  function, no component of a class outside the known ones, no key of the wire format
  used as a name. Then \<^verbatim>\<open>serialize(x, {knownComponents})\<close> succeeds, and deserializing the
  result against the same classes gives an instance of the same class, with the same
  \<^verbatim>\<open>isNew\<close> flag and the same set attributes with the same values.
\<close>

theorem instance_round_trip:
  assumes "plain_data known (VInstance name isNew attrs)"
  shows "\<exists>j. serialize_value \<lparr>knownComponents = known, serializeFunctions = False\<rparr>
                (VInstance name isNew attrs) = Inr j
           \<and> deserialize_value \<lparr>registry = known, deserializeFunctions = False\<rparr> j
                = Inr (VInstance name isNew attrs)"
  using plain_data_round_trips [OF assms, of False False] by (simp only: round_trips_def)

text \<open>A new movie with a title, an undefined director, tags and a sequel.\<close>

theorem instance_round_trip_witness:
  "plain_data [''Movie'']
     (VInstance ''Movie'' True
        [(''title'', VString ''Inception''), (''director'', VUndefined),
         (''tags'', VArray [VString ''heist'', VNumber 2010]),
         (''sequel'', VInstance ''Movie'' False [(''title'', VString ''Tenet'')])])
   \<and> serialize_value \<lparr>knownComponents = [''Movie''], serializeFunctions = False\<rparr>
     (VInstance ''Movie'' True
        [(''title'', VString ''Inception''), (''director'', VUndefined),
         (''tags'', VArray [VString ''heist'', VNumber 2010]),
         (''sequel'', VInstance ''Movie'' False [(''title'', VString ''Tenet'')])])
     = Inr (JObject
        [(''__component'', JString ''Movie''), (''__new'', JBoolean True),
         (''title'', JString ''Inception''),
         (''director'', JObject [(''__undefined'', JBoolean True)]),
         (''tags'', JArray [JString ''heist'', JNumber 2010]),
         (''sequel'', JObject [(''__component'', JString ''Movie''),
                               (''title'', JString ''Tenet'')])])
   \<and> deserialize_value \<lparr>registry = [''Movie''], deserializeFunctions = False\<rparr>
     (JObject
        [(''__component'', JString ''Movie''), (''__new'', JBoolean True),
         (''title'', JString ''Inception''),
         (''director'', JObject [(''__undefined'', JBoolean True)]),
         (''tags'', JArray [JString ''heist'', JNumber 2010]),
         (''sequel'', JObject [(''__component'', JString ''Movie''),
                               (''title'', JString ''Tenet'')])])
     = Inr (VInstance ''Movie'' True
        [(''title'', VString ''Inception''), (''director'', VUndefined),
         (''tags'', VArray [VString ''heist'', VNumber 2010]),
         (''sequel'', VInstance ''Movie'' False [(''title'', VString ''Tenet'')])])"
  using instance_round_trip
    [of "[''Movie'']" "''Movie''" True
        "[(''title'', VString ''Inception''), (''director'', VUndefined),
         (''tags'', VArray [VString ''heist'', VNumber 2010]),
         (''sequel'', VInstance ''Movie'' False [(''title'', VString ''Tenet'')])]"]
  by (simp add: reserved_def)

text \<open>
  The claim as stated fails for a movie with an attribute that holds a function: without
  \<^verbatim>\<open>serializeFunctions\<close> the body of the function is dropped, \<^verbatim>\<open>{}\<close> travels, and the
  attribute comes back as an empty plain object.
\<close>

theorem instance_round_trip_counterexample:
  "serialize_value \<lparr>knownComponents = [''Movie''], serializeFunctions = False\<rparr>
     (VInstance ''Movie'' True
        [(''title'', VString ''Inception''),
         (''onSave'', VFunction ''function onSave() {}'' [])])
     = Inr (JObject
        [(''__component'', JString ''Movie''), (''__new'', JBoolean True),
         (''title'', JString ''Inception''), (''onSave'', JObject [])])
   \<and> deserialize_value \<lparr>registry = [''Movie''], deserializeFunctions = False\<rparr>
     (JObject
        [(''__component'', JString ''Movie''), (''__new'', JBoolean True),
         (''title'', JString ''Inception''), (''onSave'', JObject [])])
     = Inr (VInstance ''Movie'' True
        [(''title'', VString ''Inception''), (''onSave'', VObject [])])
   \<and> VInstance ''Movie'' True [(''title'', VString ''Inception''), (''onSave'', VObject [])]
     \<noteq> VInstance ''Movie'' True
        [(''title'', VString ''Inception''),
         (''onSave'', VFunction ''function onSave() {}'' [])]"
  by (simp add: reserved_def)

end
